theory Spec2Isabelle
  imports Complex_Main "HOL-Library.Multiset" "HOL-Library.AList"
begin

section \<open>Errors raised by the program\<close>

text \<open>
  Every exception class the modelled code raises is one constructor. A Python exception
  does not undo the mutations made before it, so an operation on a library returns the
  error (if any) together with the state it leaves behind.
\<close>

datatype error =
    ValueError
  | LibraryError
  | LockAcquisitionFailure
  | TaskCancellationException
  | UsageError
  | ConsistencyError
  | AttributeError
  | IndexError
  | FileNotFoundError

section \<open>The retrieval pipeline (embedding\_retriever.py)\<close>

subsection \<open>Data\<close>

text \<open>
  \<open>Record\<close> of the chat-history table: only its \<open>message\<close> is read here, and the
  annotation \<open>list[str | None]\<close> of \<open>__retrieve\<close> says that it may be \<open>None\<close>.
\<close>

record wechat_record =
  message :: "string option"

text \<open>
  A \<open>DocEmbeddingRetriever\<close>. The two models and the two collaborators are opaque
  capabilities:
  \<^item> \<open>transformer\<close> is \<open>SentenceTransformer.encode\<close>;
  \<^item> \<open>ranker\<close> is the relevance score the cross encoder gives one (query, candidate)
    pair, as section 6 of the specification gives the Ranker's interface. Scores are
    totally ordered (no NaN);
  \<^item> \<open>ranker_on_empty\<close> is what \<open>CrossEncoder.predict\<close> does with an empty list of
    pairs, which depends on the release of the library: \<open>None\<close> when it returns an empty
    array of scores, \<open>Some e\<close> when it raises \<open>e\<close> (a \<open>predict\<close> that starts by reading
    \<open>sentences[0]\<close> raises \<open>IndexError\<close>);
  \<^item> \<open>index\<close> is \<open>None\<close> or the index, given by its \<open>search\<close>: the query embedding and
    the number of neighbours asked for yield the row \<open>I[0]\<close> of neighbour ids;
  \<^item> \<open>doc_provider\<close> is \<open>None\<close> or the provider, given by its \<open>get_record_by_id\<close>.
\<close>

record ('q, 's) retriever =
  transformer :: "string \<Rightarrow> 'q"
  ranker :: "string \<Rightarrow> string \<Rightarrow> 's"
  ranker_on_empty :: "error option"
  index :: "('q \<Rightarrow> int \<Rightarrow> int list) option"
  doc_provider :: "(int \<Rightarrow> wechat_record option) option"

subsection \<open>Python and numpy primitives\<close>

text \<open>\<open>xs[:k]\<close>: a negative \<open>k\<close> counts from the end of the list.\<close>

definition py_slice_to :: "int \<Rightarrow> 'a list \<Rightarrow> 'a list" where
  "py_slice_to k xs =
     (if 0 \<le> k then take (nat k) xs else take (length xs - nat (- k)) xs)"

text \<open>
  \<open>np.argsort(scores)\<close>: the indices that put \<open>scores\<close> in ascending order. Indices of
  equal scores come out in ascending order here, as numpy's default sort does on the short
  arrays it sorts by insertion; numpy does not promise it for longer arrays, and no
  universal statement below depends on it.
\<close>

definition argsort :: "('s::linorder) list \<Rightarrow> nat list" where
  "argsort scores = sort_key (\<lambda>i. scores ! i) [0..<length scores]"

text \<open>
  \<open>self.ranker.predict(merge)\<close>: one score per pair, in order; on the empty list, what
  \<open>ranker_on_empty\<close> says.
\<close>

definition predict :: "('q, 's) retriever \<Rightarrow> (string \<times> string) list \<Rightarrow> error + 's list" where
  "predict r sentences =
     (if sentences = [] then (case ranker_on_empty r of None \<Rightarrow> Inr [] | Some e \<Rightarrow> Inl e)
      else Inr (map (\<lambda>(q, c). ranker r q c) sentences))"

subsection \<open>Operations\<close>

text \<open>
  \<open>__retrieve\<close>. The result carries, beside the returned list, the trace of the calls
  made to \<open>index.search\<close>: the \<open>top_k\<close> of each call, in order.
\<close>

definition retrieve ::
  "('q, 's) retriever \<Rightarrow> string \<Rightarrow> int \<Rightarrow> error + (int list \<times> string option list)" where
  "retrieve r text top_k =
     (case doc_provider r of
        None \<Rightarrow> Inl ValueError
      | Some get_record_by_id \<Rightarrow>
          (case index r of
             None \<Rightarrow> Inl ValueError
           | Some search \<Rightarrow>
               if text = [] \<or> top_k \<le> 0 then Inr ([], [])
               else
                 let query_embedding = transformer r text;
                     I0 = search query_embedding top_k
                 in Inr ([top_k], map message (List.map_filter get_record_by_id I0))))"

text \<open>
  \<open>__rerank\<close>. There is no guard on the candidates: an empty list is handed to
  \<open>predict\<close> like any other, and what \<open>predict\<close> raises is passed on.
\<close>

definition rerank ::
  "('q, 's::linorder) retriever \<Rightarrow> string \<Rightarrow> string list \<Rightarrow> error + string list" where
  "rerank r text candidates =
     (if doc_provider r = None \<or> index r = None then Inl ValueError
      else
        let merge = map (\<lambda>c. (text, c)) candidates
        in case predict r merge of
             Inl e \<Rightarrow> Inl e
           | Inr scores \<Rightarrow>
               let sorted_ids = rev (argsort scores)
               in Inr (map (\<lambda>i. candidates ! i) sorted_ids))"

text \<open>\<open>query\<close>, with the trace of \<open>index.search\<close> calls of its first stage.\<close>

definition query ::
  "('q, 's::linorder) retriever \<Rightarrow> string \<Rightarrow> int \<Rightarrow> error + (int list \<times> string list)" where
  "query r query_text top_k =
     (case retrieve r query_text (top_k * 20) of
        Inl e \<Rightarrow> Inl e
      | Inr (searches, candidates) \<Rightarrow>
          (case rerank r query_text (List.map_filter (\<lambda>c. c) candidates) of
             Inl e \<Rightarrow> Inl e
           | Inr reranked \<Rightarrow> Inr (searches, py_slice_to top_k reranked)))"

text \<open>The content strings a record list resolves to: those whose message is not \<open>None\<close>.\<close>

definition resolved_contents ::
  "(int \<Rightarrow> wechat_record option) \<Rightarrow> int list \<Rightarrow> string list" where
  "resolved_contents get_record_by_id ids =
     List.map_filter (\<lambda>i. case get_record_by_id i of None \<Rightarrow> None | Some rec \<Rightarrow> message rec) ids"

text \<open>
  Two retrievers for the concrete checks below. In both the index answers every search
  with the ids 1, 7 and 2, of which 7 resolves to no record, and the ranker scores every
  pair alike. The ranker of \<open>example_retriever\<close> returns no scores for no pairs; the ranker
  of \<open>strict_retriever\<close> raises \<open>IndexError\<close> on the empty list.
\<close>

definition example_retriever :: "(nat, int) retriever" where
  "example_retriever =
     \<lparr>transformer = length, ranker = (\<lambda>q c. 0), ranker_on_empty = None,
      index = Some (\<lambda>e k. [1, 7, 2]),
      doc_provider = Some (\<lambda>i. if i = 1 then Some \<lparr>message = Some ''a''\<rparr>
                                else if i = 2 then Some \<lparr>message = Some ''b''\<rparr>
                                else None)\<rparr>"

definition strict_retriever :: "(nat, int) retriever" where
  "strict_retriever = example_retriever\<lparr>ranker_on_empty := Some IndexError\<rparr>"

subsection \<open>Lemmas on the primitives\<close>

lemma set_argsort: "set (argsort xs) = {0..<length xs}"
  by (simp add: argsort_def)

lemma mset_rerank_aux: "mset (map (\<lambda>i. cs ! i) (rev (argsort (map f cs)))) = mset cs"
proof -
  have "mset (map (\<lambda>i. cs ! i) (rev (argsort (map f cs)))) =
        image_mset (\<lambda>i. cs ! i) (mset [0..<length cs])"
    by (simp add: argsort_def)
  also have "\<dots> = mset (map (\<lambda>i. cs ! i) [0..<length cs])" by simp
  also have "\<dots> = mset cs" by (simp add: map_nth)
  finally show ?thesis .
qed

lemma sorted_rerank_aux:
  "sorted (rev (map f (map (\<lambda>i. cs ! i) (rev (argsort (map f cs))))))"
proof -
  let ?ids = "argsort (map f cs)"
  have eq: "map (\<lambda>i. f (cs ! i)) ?ids = map (\<lambda>i. map f cs ! i) ?ids"
    by (rule map_cong) (simp_all add: set_argsort)
  have "sorted (map (\<lambda>i. map f cs ! i) ?ids)"
    unfolding argsort_def by (rule sorted_sort_key)
  then have "sorted (map (\<lambda>i. f (cs ! i)) ?ids)"
    by (simp only: eq)
  then show ?thesis by (simp add: rev_map comp_def)
qed

lemma sorted_wrt_desc:
  "sorted (rev (map f xs)) \<Longrightarrow> sorted_wrt (\<lambda>a b. f b \<le> f a) xs"
  by (induction xs) (auto simp: sorted_append)

lemma py_slice_to_Nil: "py_slice_to k [] = []"
  by (simp add: py_slice_to_def)

lemma py_slice_to_nonneg: "0 \<le> k \<Longrightarrow> py_slice_to k xs = take (nat k) xs"
  by (simp add: py_slice_to_def)

lemma py_slice_to_take:
  "(k < 0 \<Longrightarrow> xs = []) \<Longrightarrow> py_slice_to k xs = take (nat k) xs"
  by (cases "0 \<le> k") (simp_all add: py_slice_to_def)

subsection \<open>Lemmas on the operations\<close>

lemma predict_scores:
  "cs \<noteq> [] \<or> ranker_on_empty r = None \<Longrightarrow>
   predict r (map (\<lambda>c. (text, c)) cs) = Inr (map (ranker r text) cs)"
  by (auto simp: predict_def comp_def)

lemma predict_Nil:
  "predict r [] = (case ranker_on_empty r of None \<Rightarrow> Inr [] | Some e \<Rightarrow> Inl e)"
  by (simp add: predict_def)

lemma rerank_initialized:
  "doc_provider r \<noteq> None \<Longrightarrow> index r \<noteq> None \<Longrightarrow> cs \<noteq> [] \<or> ranker_on_empty r = None \<Longrightarrow>
   rerank r text cs = Inr (map (\<lambda>i. cs ! i) (rev (argsort (map (ranker r text) cs))))"
  by (simp add: rerank_def predict_scores)

lemma rerank_Nil:
  "doc_provider r \<noteq> None \<Longrightarrow> index r \<noteq> None \<Longrightarrow>
   rerank r text [] = (case ranker_on_empty r of None \<Rightarrow> Inr [] | Some e \<Rightarrow> Inl e)"
  by (cases "ranker_on_empty r") (auto simp: rerank_def predict_Nil argsort_def)

lemma rerank_returns:
  assumes "rerank r text cs = Inr out"
  shows "out = map (\<lambda>i. cs ! i) (rev (argsort (map (ranker r text) cs)))"
proof -
  have i: "doc_provider r \<noteq> None" "index r \<noteq> None"
    using assms by (auto simp: rerank_def split: if_splits)
  have "cs \<noteq> [] \<or> ranker_on_empty r = None"
    using assms i by (cases cs; cases "ranker_on_empty r") (simp_all add: rerank_Nil)
  with i have "rerank r text cs = Inr (map (\<lambda>i. cs ! i) (rev (argsort (map (ranker r text) cs))))"
    by (rule rerank_initialized)
  with assms show ?thesis by simp
qed

lemma retrieve_initialized:
  "doc_provider r = Some g \<Longrightarrow> index r = Some s \<Longrightarrow>
   retrieve r text n =
     (if text = [] \<or> n \<le> 0 then Inr ([], [])
      else Inr ([n], map message (List.map_filter g (s (transformer r text) n))))"
  by (simp add: retrieve_def)

lemma retrieve_uninitialized:
  "doc_provider r = None \<or> index r = None \<Longrightarrow> retrieve r text n = Inl ValueError"
  by (auto simp: retrieve_def split: option.splits)

lemma retrieve_empty_input:
  "doc_provider r \<noteq> None \<Longrightarrow> index r \<noteq> None \<Longrightarrow> text = [] \<or> n \<le> 0 \<Longrightarrow>
   retrieve r text n = Inr ([], [])"
  by (auto simp: retrieve_def split: option.splits)

lemma not_None_filter:
  "List.map_filter (\<lambda>c. c) (map message (List.map_filter g ids)) = resolved_contents g ids"
  unfolding resolved_contents_def
  by (induction ids) (auto simp: List.map_filter_simps split: option.splits)

lemma set_resolved_contents:
  "set (resolved_contents g ids) =
     {m. \<exists>i rec. i \<in> set ids \<and> g i = Some rec \<and> message rec = Some m}"
  unfolding resolved_contents_def
  by (induction ids) (auto simp: List.map_filter_simps split: option.splits)

text \<open>
  What the guards of the pipeline do. While \<open>doc_provider\<close> or \<open>index\<close> is unset,
  \<open>__retrieve\<close> and \<open>query\<close> raise \<open>ValueError\<close>. Once both are set, \<open>__retrieve\<close> returns
  the empty list, without searching, for the empty text and for a non-positive \<open>top_k\<close>;
  \<open>query\<close> then hands the empty candidate list to the ranker, and returns the empty list
  or raises as \<open>predict\<close> does on no pairs.
\<close>

lemma query_guards:
  "(doc_provider r = None \<or> index r = None \<longrightarrow>
      retrieve r text k = Inl ValueError \<and> query r text k = Inl ValueError)
   \<and> (doc_provider r \<noteq> None \<and> index r \<noteq> None \<and> (text = [] \<or> k \<le> 0) \<longrightarrow>
      retrieve r text k = Inr ([], [])
      \<and> query r text k = (case ranker_on_empty r of None \<Rightarrow> Inr ([], []) | Some e \<Rightarrow> Inl e))"
proof (intro conjI impI)
  assume a: "doc_provider r = None \<or> index r = None"
  show "retrieve r text k = Inl ValueError"
    using a by (rule retrieve_uninitialized)
  have "retrieve r text (k * 20) = Inl ValueError"
    using a by (rule retrieve_uninitialized)
  then show "query r text k = Inl ValueError"
    by (simp add: query_def)
next
  assume a: "doc_provider r \<noteq> None \<and> index r \<noteq> None \<and> (text = [] \<or> k \<le> 0)"
  then have i: "doc_provider r \<noteq> None" "index r \<noteq> None" and e: "text = [] \<or> k \<le> 0"
    by simp_all
  show "retrieve r text k = Inr ([], [])"
    using i e by (rule retrieve_empty_input)
  have "text = [] \<or> k * 20 \<le> 0" using e by auto
  with i have "retrieve r text (k * 20) = Inr ([], [])"
    by (rule retrieve_empty_input)
  then show "query r text k = (case ranker_on_empty r of None \<Rightarrow> Inr ([], []) | Some e \<Rightarrow> Inl e)"
    using i by (simp add: query_def List.map_filter_simps rerank_Nil py_slice_to_Nil
        split: option.splits)
qed

subsection \<open>Claims on the retrieval pipeline\<close>

text \<open>
  Claim C4, as amended. On an initialised retriever \<open>__rerank\<close> returns for every
  non-empty list of candidates, and for the empty list when the ranker accepts one; what
  it returns is a permutation of its candidates in descending order of ranker score.
  \<open>query\<close> returns the first \<open>top_k\<close> elements of the reranked first-stage candidates
  whenever the rerank stage returns, and passes on its error otherwise. The order among
  candidates of equal score is not promised, and nothing is promised for the empty list
  on a ranker that rejects one: see the counterexample below.
\<close>

theorem rerank_contract:
  assumes "doc_provider r \<noteq> None" and "index r \<noteq> None"
  shows "(cs \<noteq> [] \<or> ranker_on_empty r = None \<longrightarrow>
            (\<exists>out. rerank r text cs = Inr out \<and> mset out = mset cs
               \<and> sorted_wrt (\<lambda>a b. ranker r text b \<le> ranker r text a) out))
       \<and> (\<exists>searches found.
             retrieve r text (k * 20) = Inr (searches, found)
           \<and> (case rerank r text (List.map_filter (\<lambda>c. c) found) of
                Inl e \<Rightarrow> query r text k = Inl e
              | Inr reranked \<Rightarrow>
                  mset reranked = mset (List.map_filter (\<lambda>c. c) found)
                \<and> sorted_wrt (\<lambda>a b. ranker r text b \<le> ranker r text a) reranked
                \<and> query r text k = Inr (searches, take (nat k) reranked)))"
proof (intro conjI impI)
  assume c: "cs \<noteq> [] \<or> ranker_on_empty r = None"
  let ?out = "map (\<lambda>i. cs ! i) (rev (argsort (map (ranker r text) cs)))"
  have 1: "rerank r text cs = Inr ?out"
    using assms c by (rule rerank_initialized)
  have 2: "mset ?out = mset cs"
    by (rule mset_rerank_aux)
  have 3: "sorted_wrt (\<lambda>a b. ranker r text b \<le> ranker r text a) ?out"
    by (rule sorted_wrt_desc) (rule sorted_rerank_aux)
  show "\<exists>out. rerank r text cs = Inr out \<and> mset out = mset cs
           \<and> sorted_wrt (\<lambda>a b. ranker r text b \<le> ranker r text a) out"
    using 1 2 3 by blast
next
  obtain g s where gs: "doc_provider r = Some g" "index r = Some s"
    using assms by auto
  obtain searches found where 4: "retrieve r text (k * 20) = Inr (searches, found)"
    and neg: "k < 0 \<Longrightarrow> found = []"
    using retrieve_initialized [OF gs, of "text" "k * 20"]
    by (cases "text = [] \<or> k * 20 \<le> 0") auto
  let ?cands = "List.map_filter (\<lambda>c. c) found"
  have 5: "case rerank r text ?cands of
             Inl e \<Rightarrow> query r text k = Inl e
           | Inr reranked \<Rightarrow>
               mset reranked = mset ?cands
             \<and> sorted_wrt (\<lambda>a b. ranker r text b \<le> ranker r text a) reranked
             \<and> query r text k = Inr (searches, take (nat k) reranked)"
  proof (cases "rerank r text ?cands")
    case (Inl e)
    then show ?thesis by (simp add: query_def 4)
  next
    case (Inr reranked)
    have rr: "reranked = map (\<lambda>i. ?cands ! i) (rev (argsort (map (ranker r text) ?cands)))"
      using Inr by (rule rerank_returns)
    have a: "mset reranked = mset ?cands"
      unfolding rr by (rule mset_rerank_aux)
    have b: "sorted_wrt (\<lambda>a b. ranker r text b \<le> ranker r text a) reranked"
      unfolding rr by (rule sorted_wrt_desc) (rule sorted_rerank_aux)
    have "k < 0 \<Longrightarrow> reranked = []"
      using neg rr by (simp add: List.map_filter_simps argsort_def)
    then have "py_slice_to k reranked = take (nat k) reranked"
      by (rule py_slice_to_take)
    then have c: "query r text k = Inr (searches, take (nat k) reranked)"
      by (simp add: query_def 4 Inr)
    show ?thesis using a b c by (simp add: Inr)
  qed
  show "\<exists>searches found.
             retrieve r text (k * 20) = Inr (searches, found)
           \<and> (case rerank r text (List.map_filter (\<lambda>c. c) found) of
                Inl e \<Rightarrow> query r text k = Inl e
              | Inr reranked \<Rightarrow>
                  mset reranked = mset (List.map_filter (\<lambda>c. c) found)
                \<and> sorted_wrt (\<lambda>a b. ranker r text b \<le> ranker r text a) reranked
                \<and> query r text k = Inr (searches, take (nat k) reranked))"
    using 4 5 by blast
qed

text \<open>Witness for C4: the example retriever is initialised; the theorem applies to it.\<close>

theorem rerank_contract_witness:
  "rerank example_retriever ''q'' [''a'', ''b''] = Inr [''b'', ''a'']
   \<and> query example_retriever ''q'' 1 = Inr ([20], [''b''])"
proof -
  have i: "doc_provider example_retriever \<noteq> None" "index example_retriever \<noteq> None"
    by (simp_all add: example_retriever_def)
  from rerank_contract [OF i, of "[''a'', ''b'']" "''q''" 1]
  have "\<exists>out. rerank example_retriever ''q'' [''a'', ''b''] = Inr out" by blast
  moreover have "rerank example_retriever ''q'' [''a'', ''b''] = Inr [''b'', ''a'']"
    by (simp add: example_retriever_def rerank_def predict_def argsort_def)
  moreover have "query example_retriever ''q'' 1 = Inr ([20], [''b''])"
    by (simp add: example_retriever_def query_def retrieve_def rerank_def predict_def
        argsort_def List.map_filter_def py_slice_to_def)
  ultimately show ?thesis by simp
qed

text \<open>
  Counterexample to C4 as stated: the candidates \<open>a\<close> and \<open>b\<close> have the same score, and
  the reversed \<open>argsort\<close> returns them as \<open>b, a\<close>, not in their input order. And on the
  empty list of candidates a ranker that rejects an empty list makes the rerank stage
  raise: there is no output.
\<close>

theorem rerank_ties_counterexample:
  "ranker example_retriever ''q'' ''a'' = ranker example_retriever ''q'' ''b''
   \<and> rerank example_retriever ''q'' [''a'', ''b''] = Inr [''b'', ''a'']
   \<and> rerank strict_retriever ''q'' [] = Inl IndexError"
  by (simp add: strict_retriever_def example_retriever_def rerank_def predict_def argsort_def)

text \<open>
  Claim C6, as amended. On an initialised retriever, for every non-empty query text and
  every \<open>top_k > 0\<close>, \<open>query\<close> makes exactly one first-stage search, for \<open>top_k * 20\<close>
  neighbours; the ids that resolve to no record are dropped, the candidates handed to the
  rerank stage are the messages of the resolved records that are not \<open>None\<close>, and the
  reranked list holds exactly those contents. The rerank stage returns whenever a
  candidate is left, or the ranker accepts an empty list; \<open>query\<close> returns the first
  \<open>top_k\<close> of what it returns, and hands on its error otherwise.
\<close>

theorem query_overfetch:
  assumes "text \<noteq> []" and "0 < k"
    and "index r = Some search" and "doc_provider r = Some get_record_by_id"
  shows "retrieve r text (k * 20) =
           Inr ([k * 20],
                map message (List.map_filter get_record_by_id (search (transformer r text) (k * 20))))
       \<and> (case rerank r text (resolved_contents get_record_by_id (search (transformer r text) (k * 20))) of
            Inl e \<Rightarrow> query r text k = Inl e
          | Inr reranked \<Rightarrow>
              query r text k = Inr ([k * 20], take (nat k) reranked)
            \<and> set reranked =
                {m. \<exists>i rec. i \<in> set (search (transformer r text) (k * 20))
                           \<and> get_record_by_id i = Some rec \<and> message rec = Some m})
       \<and> (resolved_contents get_record_by_id (search (transformer r text) (k * 20)) \<noteq> []
            \<or> ranker_on_empty r = None \<longrightarrow>
          (\<exists>reranked.
             rerank r text (resolved_contents get_record_by_id (search (transformer r text) (k * 20)))
               = Inr reranked))"
proof -
  let ?ids = "search (transformer r text) (k * 20)"
  let ?cands = "resolved_contents get_record_by_id ?ids"
  have 1: "retrieve r text (k * 20) = Inr ([k * 20], map message (List.map_filter get_record_by_id ?ids))"
    using assms by (simp add: retrieve_initialized)
  have 2: "case rerank r text ?cands of
             Inl e \<Rightarrow> query r text k = Inl e
           | Inr reranked \<Rightarrow>
               query r text k = Inr ([k * 20], take (nat k) reranked)
             \<and> set reranked = {m. \<exists>i rec. i \<in> set ?ids \<and> get_record_by_id i = Some rec \<and> message rec = Some m}"
  proof (cases "rerank r text ?cands")
    case (Inl e)
    then show ?thesis by (simp add: query_def 1 not_None_filter)
  next
    case (Inr reranked)
    have rr: "reranked = map (\<lambda>i. ?cands ! i) (rev (argsort (map (ranker r text) ?cands)))"
      using Inr by (rule rerank_returns)
    have a: "query r text k = Inr ([k * 20], take (nat k) reranked)"
      using assms by (simp add: query_def 1 not_None_filter Inr py_slice_to_nonneg)
    have "mset reranked = mset ?cands" unfolding rr by (rule mset_rerank_aux)
    then have "set reranked = set ?cands" by (rule mset_eq_setD)
    then have b: "set reranked = {m. \<exists>i rec. i \<in> set ?ids \<and> get_record_by_id i = Some rec \<and> message rec = Some m}"
      by (simp only: set_resolved_contents)
    show ?thesis using a b by (simp add: Inr)
  qed
  have 3: "?cands \<noteq> [] \<or> ranker_on_empty r = None \<longrightarrow> (\<exists>reranked. rerank r text ?cands = Inr reranked)"
    using assms by (simp add: rerank_initialized)
  show ?thesis using 1 2 3 by blast
qed

text \<open>Witness for C6: the query \<open>q\<close> with \<open>top_k = 1\<close> on the example retriever.\<close>

theorem query_overfetch_witness:
  "query example_retriever ''q'' 1 = Inr ([20], [''b''])"
proof -
  have i: "index example_retriever = Some (\<lambda>e k. [1, 7, 2])"
    "doc_provider example_retriever =
       Some (\<lambda>i. if i = 1 then Some \<lparr>message = Some ''a''\<rparr>
                  else if i = 2 then Some \<lparr>message = Some ''b''\<rparr> else None)"
    by (simp_all add: example_retriever_def)
  have t: "''q'' \<noteq> []" "(0::int) < 1" by simp_all
  have r: "rerank example_retriever ''q''
             (resolved_contents (\<lambda>i. if i = 1 then Some \<lparr>message = Some ''a''\<rparr>
                  else if i = 2 then Some \<lparr>message = Some ''b''\<rparr> else None) [1, 7, 2])
           = Inr [''b'', ''a'']"
    by (simp add: example_retriever_def rerank_def predict_def argsort_def
        resolved_contents_def List.map_filter_def)
  from query_overfetch [OF t i] r
  show ?thesis by simp
qed

text \<open>
  Counterexample to C6 as stated: for the empty query text and \<open>top_k = 1\<close> no search
  request is made at all (the trace of the first stage, and of \<open>query\<close>, is empty),
  although the index would answer one.
\<close>

theorem query_empty_text_counterexample:
  "retrieve example_retriever [] (1 * 20) = Inr ([], [])
   \<and> query example_retriever [] 1 = Inr ([], [])"
  by (simp add: example_retriever_def query_def retrieve_def rerank_def predict_def argsort_def
      List.map_filter_def py_slice_to_def)

text \<open>
  Claim C7 fails on the code. \<open>__retrieve\<close> returns the empty list for the empty text
  and for a non-positive \<open>top_k\<close>, and \<open>query\<close> raises \<open>ValueError\<close> before \<open>initialize\<close>,
  as the claim says. But \<open>query\<close> does not stop there: it passes the empty candidate list
  to \<open>__rerank\<close>, which calls \<open>self.ranker.predict\<close> on an empty list of pairs. With a
  cross encoder whose \<open>predict\<close> raises \<open>IndexError\<close> on the empty list, \<open>query\<close> on an
  initialised retriever raises \<open>IndexError\<close> for the empty text and for \<open>top_k = 0\<close>,
  where the claim promises the empty list.
\<close>

theorem query_empty_input_raises:
  "doc_provider strict_retriever \<noteq> None \<and> index strict_retriever \<noteq> None
   \<and> retrieve strict_retriever [] 5 = Inr ([], [])
   \<and> query strict_retriever [] 5 = Inl IndexError
   \<and> retrieve strict_retriever ''q'' 0 = Inr ([], [])
   \<and> query strict_retriever ''q'' 0 = Inl IndexError
   \<and> query (strict_retriever\<lparr>index := None\<rparr>) ''q'' 5 = Inl ValueError"
  by (simp add: strict_retriever_def example_retriever_def query_def retrieve_def rerank_def
      predict_def List.map_filter_def)


section \<open>The image library (src/library/image/image\_lib.py)\<close>

subsection \<open>Data\<close>

text \<open>
  \<open>uuid4()\<close> is modelled by a supply: the library state carries a counter, and each call
  returns its value and increments it, so no uuid is returned twice. An embedding is a
  list of floats; only its length is inspected by the code.
\<close>

type_synonym uuid = nat

type_synonym embedding = "real list"

text \<open>
  One row of the table \<open>image_lib\<close>, with the columns of \<open>record_structure\<close> in sql.py:
  \<open>id INTEGER PRIMARY KEY\<close>, \<open>timestamp\<close>, \<open>uuid\<close>, \<open>path\<close>, \<open>filename\<close>.
\<close>

record row =
  rec_id :: nat
  rec_timestamp :: nat
  rec_uuid :: uuid
  rec_path :: string
  rec_filename :: string

text \<open>
  The state of one \<open>ImageLib\<close> together with what it keeps on disk.
  \<^item> \<open>files\<close>, \<open>valid_image\<close>: the files under the library root as \<open>os.walk\<close> lists them
    (relative paths), and whether \<open>Image.open\<close> and \<open>verify\<close> accept a file;
  \<^item> \<open>data_folder\<close>: whether the library data folder \<open>_path_lib_data\<close> exists on disk;
    it holds the metadata file, the database file, the local vector index and the
    persisted scan profile;
  \<^item> \<open>metadata_file\<close>: the persisted metadata, \<open>None\<close> when the file does not exist,
    else its \<open>last_scanned\<close>; \<open>last_scanned\<close> is the in-memory \<open>_metadata['last_scanned']\<close>;
  \<^item> \<open>embedder\<close>: \<open>None\<close> or the embedder, given by the embedding of the image at a path;
  \<^item> \<open>table_open\<close>, \<open>rows\<close>: whether \<open>__table\<close> is set, and the rows of the database;
  \<^item> \<open>vector_db_open\<close>, \<open>vectors\<close>, \<open>index_dim\<close>, \<open>staged\<close>: whether \<open>__vector_db\<close> is set,
    the stored vectors by key, the dimension of the index once created, and the writes
    staged in an open batch writer;
  \<^item> \<open>embedded_files\<close>: the in-memory scan profile \<open>get_embedded_files()\<close>, a dict in
    insertion order; \<open>scan_profile_file\<close> is its persisted copy;
  \<^item> \<open>scan_lock\<close>: whether \<open>__scan_lock\<close> is held;
  \<^item> \<open>reported\<close>: the values passed to \<open>report_progress\<close> so far, in order.
\<close>

record image_lib =
  local_mode :: bool
  files :: "string list"
  valid_image :: "string \<Rightarrow> bool"
  data_folder :: bool
  metadata_file :: "nat option"
  last_scanned :: nat
  embedder :: "(string \<Rightarrow> embedding) option"
  table_open :: bool
  rows :: "row list"
  vector_db_open :: bool
  vectors :: "(uuid \<times> embedding) list"
  index_dim :: "int option"
  staged :: "(uuid \<times> embedding) list"
  embedded_files :: "(string \<times> uuid) list"
  scan_profile_file :: "(string \<times> uuid) list"
  scan_lock :: bool
  uuid_supply :: nat
  reported :: "int list"

text \<open>
  What one call receives from outside: the clock \<open>datetime.now()\<close>, and the cancel
  event, \<open>None\<close> or the answers of \<open>is_set()\<close> to the successive polls of one scan.
\<close>

record scan_env =
  now :: nat
  cancel_event :: "(nat \<Rightarrow> bool) option"

text \<open>The local variables of one scan.\<close>

record scan_locals =
  previous_progress :: int
  dimension :: int
  polls :: nat

subsection \<open>Python floats\<close>

text \<open>
  A Python \<open>float\<close> is an IEEE 754 binary64 number: an integer significand of at most 53
  bits times a power of two whose exponent is at least \<open>-1074\<close>. Every arithmetic
  operation returns the exact result rounded to the nearest such number, a tie going to
  the even significand. Overflow is left out: no value computed below exceeds 100.

  \<open>round_half_even\<close> rounds a real number to the nearest integer, a tie to the even one.
  \<open>double_exponent x\<close> is the exponent of the binary64 numbers around \<open>x\<close>: the one that
  brings the significand of \<open>x\<close> between \<open>2^52\<close> and \<open>2^53\<close>, and \<open>-1074\<close> in the
  subnormal range. \<open>round_double\<close> is the rounding of a real number to binary64.
\<close>

definition round_half_even :: "real \<Rightarrow> int" where
  "round_half_even x =
     (let f = \<lfloor>x\<rfloor>; d = x - of_int f
      in if d < 1 / 2 then f else if 1 / 2 < d then f + 1 else if even f then f else f + 1)"

definition double_exponent :: "real \<Rightarrow> int" where
  "double_exponent x = max (\<lfloor>log 2 \<bar>x\<bar>\<rfloor> - 52) (- 1074)"

definition round_double :: "real \<Rightarrow> real" where
  "round_double x =
     (if x = 0 then 0
      else of_int (round_half_even (x / 2 powr of_int (double_exponent x)))
             * 2 powr of_int (double_exponent x))"

text \<open>
  \<open>a / b\<close> on two \<open>int\<close>s is the correctly rounded quotient (the divisor is not zero
  where it is used below: the scan loop runs only over a non-empty list); \<open>x * y\<close> on
  floats is the correctly rounded product; \<open>int(x)\<close> truncates towards zero.
\<close>

definition int_truediv :: "nat \<Rightarrow> nat \<Rightarrow> real" where
  "int_truediv a b = round_double (real a / real b)"

definition float_mul :: "real \<Rightarrow> real \<Rightarrow> real" where
  "float_mul x y = round_double (x * y)"

definition py_int :: "real \<Rightarrow> int" where
  "py_int x = (if 0 \<le> x then \<lfloor>x\<rfloor> else \<lceil>x\<rceil>)"

text \<open>\<open>int(i / total * 100)\<close>, the percentage \<open>__do_scan\<close> computes for the item \<open>i\<close>.\<close>

definition progress_percent :: "nat \<Rightarrow> nat \<Rightarrow> int" where
  "progress_percent i total_n = py_int (float_mul (int_truediv i total_n) 100)"

subsection \<open>Paths (os.path on POSIX)\<close>

definition sep :: char where
  "sep = CHR ''/''"

text \<open>\<open>relative_path.lstrip(os.path.sep)\<close>.\<close>

definition lstrip_sep :: "string \<Rightarrow> string" where
  "lstrip_sep p = dropWhile (\<lambda>c. c = sep) p"

text \<open>\<open>os.path.basename\<close>: what follows the last separator.\<close>

definition basename :: "string \<Rightarrow> string" where
  "basename p = rev (takeWhile (\<lambda>c. c \<noteq> sep) (rev p))"

text \<open>
  \<open>os.path.dirname\<close>: what precedes the last separator, without its trailing separators
  unless it consists of separators only.
\<close>

definition dirname :: "string \<Rightarrow> string" where
  "dirname p =
     (let head = rev (dropWhile (\<lambda>c. c \<noteq> sep) (rev p))
      in if list_all (\<lambda>c. c = sep) head then head
         else rev (dropWhile (\<lambda>c. c = sep) (rev head)))"

subsection \<open>The metadata table\<close>

text \<open>
  Modelled from the spec: the class \<open>ImageLibTable\<close> (image\_lib\_table.py) is not among
  the sources; its operations follow section 4.3 of the specification and the SQL
  statements of sql.py. \<open>insert_row\<close> runs \<open>insert_row_sql\<close>: the id is assigned by the
  database (\<open>INTEGER PRIMARY KEY\<close>: one more than the largest id in the table).
  \<open>delete_row_by_uuid\<close> runs \<open>delete_by_uuid_sql\<close>, \<open>select_row_by_uuid\<close> runs
  \<open>select_by_uuid_sql\<close>, \<open>clean_all_data\<close> deletes every row.
\<close>

definition next_row_id :: "row list \<Rightarrow> nat" where
  "next_row_id rs = Suc (fold max (map rec_id rs) 0)"

definition insert_row :: "nat \<Rightarrow> uuid \<Rightarrow> string \<Rightarrow> string \<Rightarrow> image_lib \<Rightarrow> image_lib" where
  "insert_row ts u parent_folder fname s =
     s\<lparr>rows := rows s @
          [\<lparr>rec_id = next_row_id (rows s), rec_timestamp = ts, rec_uuid = u,
            rec_path = parent_folder, rec_filename = fname\<rparr>]\<rparr>"

definition delete_row_by_uuid :: "uuid \<Rightarrow> image_lib \<Rightarrow> image_lib" where
  "delete_row_by_uuid u s = s\<lparr>rows := filter (\<lambda>r. rec_uuid r \<noteq> u) (rows s)\<rparr>"

definition select_row_by_uuid :: "uuid \<Rightarrow> image_lib \<Rightarrow> row list" where
  "select_row_by_uuid u s = filter (\<lambda>r. rec_uuid r = u) (rows s)"

definition row_count :: "image_lib \<Rightarrow> nat" where
  "row_count s = length (rows s)"

definition table_clean_all_data :: "image_lib \<Rightarrow> image_lib" where
  "table_clean_all_data s = s\<lparr>rows := []\<rparr>"

subsection \<open>The vector store\<close>

text \<open>
  Modelled from the spec: the class \<open>ImageLibVectorDb\<close> (image\_lib\_vector\_db.py) and the
  batch writer \<open>BatchedPipeline\<close> (redis\_client.py) are not among the sources; their
  operations follow section 4.2 of the specification.
  \<^item> \<open>initialize_index(dimension)\<close> creates the index with that dimension.
  \<^item> \<open>add(key, vector, writer)\<close>: on the in-process store (no writer) it is a usage error
    before \<open>initialize_index\<close>, a vector whose dimension differs from the index's is
    rejected with no partial write, and otherwise the vector is stored under the key. With
    a batch writer the write is staged, and the writer flushes, in insertion order, when
    \<open>batch_size\<close> writes are staged.
  \<^item> \<open>remove(key)\<close> deletes the vectors stored under the key.
  \<^item> \<open>clean_all_data\<close> deletes every vector; \<open>db_is_empty\<close> tells whether none is stored.
  \<^item> \<open>get_save_pipeline\<close> is supported by the networked store only.
  \<^item> \<open>persist\<close> writes the store to disk; stored and persisted vectors are not told
    apart here, so it changes nothing.
\<close>

definition initialize_index :: "int \<Rightarrow> image_lib \<Rightarrow> image_lib" where
  "initialize_index d s = s\<lparr>index_dim := Some d\<rparr>"

definition flush_pipeline :: "image_lib \<Rightarrow> image_lib" where
  "flush_pipeline s = s\<lparr>vectors := vectors s @ staged s, staged := []\<rparr>"

definition batch_size :: nat where
  "batch_size = 200"

definition vector_db_add ::
  "uuid \<Rightarrow> embedding \<Rightarrow> bool \<Rightarrow> image_lib \<Rightarrow> error option \<times> image_lib" where
  "vector_db_add u v save_pipeline s =
     (if save_pipeline then
        (let s1 = s\<lparr>staged := staged s @ [(u, v)]\<rparr>
         in (None, if batch_size \<le> length (staged s1) then flush_pipeline s1 else s1))
      else
        (case index_dim s of
           None \<Rightarrow> (Some UsageError, s)
         | Some d \<Rightarrow>
             if int (length v) \<noteq> d then (Some ConsistencyError, s)
             else (None, s\<lparr>vectors := vectors s @ [(u, v)]\<rparr>)))"

definition vector_db_remove :: "uuid \<Rightarrow> image_lib \<Rightarrow> image_lib" where
  "vector_db_remove u s = s\<lparr>vectors := filter (\<lambda>kv. fst kv \<noteq> u) (vectors s)\<rparr>"

definition vector_db_clean_all_data :: "image_lib \<Rightarrow> image_lib" where
  "vector_db_clean_all_data s = s\<lparr>vectors := []\<rparr>"

definition db_is_empty :: "image_lib \<Rightarrow> bool" where
  "db_is_empty s = (vectors s = [])"

definition persist :: "image_lib \<Rightarrow> image_lib" where
  "persist s = s"

subsection \<open>The base class\<close>

text \<open>
  Modelled from the spec: the class \<open>LibraryBase\<close> (lib\_base.py) is not among the sources.
  \<open>metadata_exists\<close> tells whether the metadata file exists; \<open>_save_metadata\<close> writes the
  in-memory metadata to it; \<open>get_embedded_files\<close> returns the in-memory scan profile and
  \<open>_save_scan_profile\<close> persists it (section 3: the scan profile is a persisted mapping
  from relative path to uuid); \<open>report_progress\<close> hands a value to the progress reporter;
  the decorator \<open>ensure_lib_is_ready\<close> raises \<open>LibraryError\<close> unless \<open>lib_is_ready()\<close>.
\<close>

definition metadata_exists :: "image_lib \<Rightarrow> bool" where
  "metadata_exists s = (metadata_file s \<noteq> None)"

definition save_metadata :: "image_lib \<Rightarrow> image_lib" where
  "save_metadata s = s\<lparr>metadata_file := Some (last_scanned s)\<rparr>"

definition save_scan_profile :: "image_lib \<Rightarrow> image_lib" where
  "save_scan_profile s = s\<lparr>scan_profile_file := embedded_files s\<rparr>"

definition report_progress :: "int \<Rightarrow> image_lib \<Rightarrow> image_lib" where
  "report_progress v s = s\<lparr>reported := reported s @ [v]\<rparr>"

subsection \<open>ImageLib: private methods and the scan\<close>

text \<open>\<open>lib_is_ready\<close>.\<close>

definition lib_is_ready :: "image_lib \<Rightarrow> bool" where
  "lib_is_ready s =
     (if \<not> metadata_exists s then False
      else if \<not> table_open s then False
      else if \<not> vector_db_open s then False
      else if embedder s = None then False
      else True)"

text \<open>
  \<open>__write_embedding_entry\<close>: a fresh uuid, the row, the vector, then the profile entry.
  An error of the vector store leaves the row behind and the profile untouched.
\<close>

definition write_embedding_entry ::
  "nat \<Rightarrow> string \<Rightarrow> embedding \<Rightarrow> bool \<Rightarrow> image_lib \<Rightarrow> error option \<times> image_lib" where
  "write_embedding_entry ts relative_path v save_pipeline s =
     (let u = uuid_supply s;
          s1 = s\<lparr>uuid_supply := Suc u\<rparr>;
          parent_folder = dirname relative_path;
          fname = basename relative_path;
          s2 = insert_row ts u parent_folder fname s1
      in case vector_db_add u v save_pipeline s2 of
           (Some e, s3) \<Rightarrow> (Some e, s3)
         | (None, s3) \<Rightarrow>
             (None, s3\<lparr>embedded_files := AList.update relative_path u (embedded_files s3)\<rparr>))"

text \<open>The body of the loop of \<open>remove_embeddings\<close>, for one path.\<close>

definition remove_embedding :: "string \<Rightarrow> image_lib \<Rightarrow> image_lib" where
  "remove_embedding relative_path s =
     (if relative_path = [] then s
      else
        let p = lstrip_sep relative_path
        in case map_of (embedded_files s) p of
             None \<Rightarrow> s
           | Some u \<Rightarrow>
               (let s1 = vector_db_remove u s;
                    s2 = delete_row_by_uuid u s1
                in s2\<lparr>embedded_files := AList.delete p (embedded_files s2)\<rparr>))"

fun remove_embeddings_loop :: "string list \<Rightarrow> image_lib \<Rightarrow> image_lib" where
  "remove_embeddings_loop [] s = s"
| "remove_embeddings_loop (relative_path # rest) s =
     remove_embeddings_loop rest (remove_embedding relative_path s)"

text \<open>\<open>remove_embeddings\<close>, under \<open>@ensure_lib_is_ready\<close>.\<close>

definition remove_embeddings :: "string list \<Rightarrow> image_lib \<Rightarrow> error option \<times> image_lib" where
  "remove_embeddings relative_paths s =
     (if \<not> lib_is_ready s then (Some LibraryError, s)
      else if relative_paths = [] then (None, s)
      else (None, save_scan_profile (remove_embeddings_loop relative_paths s)))"

text \<open>
  The first part of \<open>__do_scan\<close>: the walk over the library and, for an incremental run,
  the removal of the profile entries whose file is gone. It returns the paths to embed,
  in the order the loop will take them.
\<close>

definition do_scan_targets :: "bool \<Rightarrow> image_lib \<Rightarrow> error option \<times> string list \<times> image_lib" where
  "do_scan_targets incremental s =
     (let all_files = remdups (files s)
      in if incremental then
           (let to_be_embedded = filter (\<lambda>f. map_of (embedded_files s) f = None) all_files;
                to_be_deleted = filter (\<lambda>p. p \<notin> set all_files) (map fst (embedded_files s))
            in if to_be_deleted \<noteq> [] then
                 (case remove_embeddings to_be_deleted s of
                    (r, s1) \<Rightarrow> (r, to_be_embedded, s1))
               else (None, to_be_embedded, s))
         else (None, all_files, s))"

text \<open>
  What the generator yields for a valid image: its embedding, or \<open>None\<close> under
  \<open>scan_only\<close>. Calling a method of an unset embedder raises \<open>AttributeError\<close>.
\<close>

definition embed_item :: "bool \<Rightarrow> string \<Rightarrow> image_lib \<Rightarrow> error + embedding option" where
  "embed_item scan_only relative_path s =
     (if \<not> scan_only then
        (case embedder s of
           None \<Rightarrow> Inl AttributeError
         | Some embed_image_as_list \<Rightarrow> Inr (Some (embed_image_as_list relative_path)))
      else Inr None)"

text \<open>
  The body of the loop of \<open>__scan_and_initialize\<close> for one yielded item: the poll of the
  cancel event, the check of the embedding, the creation of the index at the first
  embedding (in-process store), and the paired write. \<open>save_pipeline\<close> tells which of the
  two loops of the source runs.
\<close>

definition consume_item ::
  "scan_env \<Rightarrow> bool \<Rightarrow> bool \<Rightarrow> string \<Rightarrow> embedding option \<Rightarrow> scan_locals \<Rightarrow> image_lib
     \<Rightarrow> error option \<times> scan_locals \<times> image_lib" where
  "consume_item env scan_only save_pipeline relative_path embedding loc s =
     (let is_set = (case cancel_event env of None \<Rightarrow> False | Some ev \<Rightarrow> ev (polls loc));
          loc1 = loc\<lparr>polls := Suc (polls loc)\<rparr>
      in if cancel_event env \<noteq> None \<and> is_set then (Some TaskCancellationException, loc1, s)
         else if \<not> scan_only then
           (case embedding of
              None \<Rightarrow> (Some LibraryError, loc1, s)
            | Some v \<Rightarrow>
                if v = [] then (Some LibraryError, loc1, s)
                else if save_pipeline then
                  (let loc2 = (if dimension loc1 = - 1
                               then loc1\<lparr>dimension := int (length v)\<rparr> else loc1)
                   in case write_embedding_entry (now env) relative_path v True s of
                        (r, s1) \<Rightarrow> (r, loc2, s1))
                else
                  (let init = (dimension loc1 = - 1 \<and> local_mode s);
                       loc2 = (if init then loc1\<lparr>dimension := int (length v)\<rparr> else loc1);
                       s1 = (if init then initialize_index (int (length v)) s else s)
                   in case write_embedding_entry (now env) relative_path v False s1 of
                        (r, s2) \<Rightarrow> (r, loc2, s2)))
         else (None, loc1, s))"

text \<open>
  The progress report of \<open>__do_scan\<close> for the item of index \<open>i\<close>: the percentage
  \<open>int(i / total * 100)\<close> is reported, and remembered, only when it exceeds the one
  reported before.
\<close>

definition progress_step ::
  "scan_env \<Rightarrow> nat \<Rightarrow> nat \<Rightarrow> scan_locals \<Rightarrow> image_lib \<Rightarrow> scan_locals \<times> image_lib" where
  "progress_step env i total_n loc s =
     (let current_progress = progress_percent i total_n
      in if current_progress > previous_progress loc
         then (loc\<lparr>previous_progress := current_progress\<rparr>, report_progress current_progress s)
         else (loc, s))"

text \<open>
  The loop of \<open>__do_scan\<close> over \<open>enumerate(to_be_embedded)\<close>, interleaved with the loop of
  \<open>__scan_and_initialize\<close> that consumes what it yields. For each item: an invalid image
  is skipped; the progress is reported when it exceeds the previously reported one; the
  item is embedded and yielded; the consumer polls the cancel event and writes the entry.
  \<open>gen_scan_only\<close> is the \<open>scan_only\<close> the generator was called with, \<open>scan_only\<close> the one
  the consumer tests.
\<close>

fun scan_loop ::
  "scan_env \<Rightarrow> bool \<Rightarrow> bool \<Rightarrow> bool \<Rightarrow> nat \<Rightarrow> (nat \<times> string) list \<Rightarrow> scan_locals \<Rightarrow> image_lib
     \<Rightarrow> error option \<times> scan_locals \<times> image_lib" where
  "scan_loop env scan_only gen_scan_only save_pipeline total_n [] loc s = (None, loc, s)"
| "scan_loop env scan_only gen_scan_only save_pipeline total_n ((i, relative_path) # rest) loc s =
     (if \<not> valid_image s relative_path
      then scan_loop env scan_only gen_scan_only save_pipeline total_n rest loc s
      else
        (case progress_step env i total_n loc s of
           (loc1, s1) \<Rightarrow>
             (case embed_item gen_scan_only relative_path s1 of
                Inl e \<Rightarrow> (Some e, loc1, s1)
              | Inr embedding \<Rightarrow>
                  (case consume_item env scan_only save_pipeline relative_path embedding loc1 s1 of
                     (Some e, loc2, s2) \<Rightarrow> (Some e, loc2, s2)
                   | (None, loc2, s2) \<Rightarrow>
                       scan_loop env scan_only gen_scan_only save_pipeline total_n rest loc2 s2))))"

text \<open>\<open>enumerate\<close>.\<close>

definition enumerate_from0 :: "'a list \<Rightarrow> (nat \<times> 'a) list" where
  "enumerate_from0 xs = zip [0..<length xs] xs"

text \<open>
  \<open>__scan_and_initialize\<close>. The batch writer exists exactly for the networked store; its
  scope is left, and the writer flushed, on every exit of the first loop. The generator
  is never asked for an incremental run. After the loop the store and the profile are
  persisted, and the networked store builds its index.
\<close>

definition scan_and_initialize ::
  "scan_env \<Rightarrow> bool \<Rightarrow> image_lib \<Rightarrow> error option \<times> image_lib" where
  "scan_and_initialize env scan_only s =
     (let save_pipeline = (\<not> local_mode s);
          gen_scan_only = (if save_pipeline then scan_only else False);
          loc0 = \<lparr>previous_progress = - 1, dimension = - 1, polls = 0\<rparr>
      in case do_scan_targets False s of
           (Some e, to_be_embedded, s0) \<Rightarrow> (Some e, s0)
         | (None, to_be_embedded, s0) \<Rightarrow>
             (case scan_loop env scan_only gen_scan_only save_pipeline (length to_be_embedded)
                     (enumerate_from0 to_be_embedded) loc0 s0 of
                (r, loc, s1) \<Rightarrow>
                  (let s2 = (if save_pipeline then flush_pipeline s1 else s1)
                   in case r of
                        Some e \<Rightarrow> (Some e, s2)
                      | None \<Rightarrow>
                          if \<not> scan_only then
                            (let s3 = save_scan_profile (persist s2)
                             in (None, if \<not> local_mode s3
                                       then initialize_index (dimension loc) s3 else s3))
                          else (None, s2))))"

subsection \<open>ImageLib: public methods\<close>

text \<open>The constructors of the two stores open the data kept on disk.\<close>

definition load_dbs :: "image_lib \<Rightarrow> image_lib" where
  "load_dbs s = s\<lparr>table_open := True, vector_db_open := True\<rparr>"

text \<open>
  \<open>initialize\<close>. The lock is taken without blocking and released when its scope is left;
  a cancellation is caught, both stores are cleaned, and the call returns normally.
\<close>

definition initialize :: "scan_env \<Rightarrow> bool \<Rightarrow> image_lib \<Rightarrow> error option \<times> image_lib" where
  "initialize env force_init s =
     (let ready = lib_is_ready s
      in if ready \<and> \<not> force_init then (None, s)
         else if \<not> ready \<and> embedder s = None then (Some LibraryError, s)
         else
           (let s1 = (if \<not> ready then load_dbs s else s)
            in if \<not> force_init \<and> 0 < row_count s1 \<and> \<not> db_is_empty s1 then (None, s1)
               else
                 (let s2 = (if lib_is_ready s1
                            then table_clean_all_data (vector_db_clean_all_data s1) else s1)
                  in if scan_lock s2 then (Some LockAcquisitionFailure, s2)
                     else
                       (let s3 = save_metadata (s2\<lparr>scan_lock := True, last_scanned := now env\<rparr>)
                        in case scan_and_initialize env False s3 of
                             (Some TaskCancellationException, s4) \<Rightarrow>
                               (None, (table_clean_all_data (vector_db_clean_all_data s4))
                                        \<lparr>scan_lock := False\<rparr>)
                           | (r, s4) \<Rightarrow> (r, s4\<lparr>scan_lock := False\<rparr>)))))"

text \<open>
  \<open>demolish\<close>. \<open>shutil.rmtree\<close> of the library data folder deletes, as the docstring
  lists, the local vector index, the database file and the metadata file; the persisted
  scan profile lies in the same folder. On a folder that does not exist (the library has
  been demolished before) \<open>shutil.rmtree\<close> raises \<open>FileNotFoundError\<close>, after the three
  handles have been dropped.
\<close>

definition demolish :: "image_lib \<Rightarrow> error option \<times> image_lib" where
  "demolish s =
     (if scan_lock s then (Some LockAcquisitionFailure, s)
      else if \<not> local_mode s \<and> \<not> vector_db_open s then (Some LibraryError, s)
      else
        (let s1 = (if \<not> local_mode s then s\<lparr>vectors := [], index_dim := None\<rparr> else s);
             s2 = s1\<lparr>embedder := None, table_open := False, vector_db_open := False\<rparr>
         in if \<not> data_folder s2 then (Some FileNotFoundError, s2)
            else (None, s2\<lparr>rows := [], vectors := [], index_dim := None,
                           metadata_file := None, scan_profile_file := [],
                           data_folder := False\<rparr>)))"

text \<open>The loop of \<open>delete_files\<close>: \<open>os.remove\<close> of each path that is a file.\<close>

fun delete_files_loop :: "string list \<Rightarrow> image_lib \<Rightarrow> image_lib" where
  "delete_files_loop [] s = s"
| "delete_files_loop (relative_path # rest) s =
     (if relative_path = [] then delete_files_loop rest s
      else
        let p = lstrip_sep relative_path
        in delete_files_loop rest
             (if p \<in> set (files s) then s\<lparr>files := filter (\<lambda>f. f \<noteq> p) (files s)\<rparr> else s))"

definition delete_files :: "string list \<Rightarrow> image_lib \<Rightarrow> error option \<times> image_lib" where
  "delete_files relative_paths s =
     (if relative_paths = [] then (None, s)
      else remove_embeddings relative_paths (delete_files_loop relative_paths s))"

text \<open>
  \<open>incremental_initialization\<close>, as the source has it: with an empty profile it runs a
  forced full \<open>initialize\<close>; otherwise it loads the two stores if they are not loaded, and
  returns.
\<close>

definition incremental_initialization :: "scan_env \<Rightarrow> image_lib \<Rightarrow> error option \<times> image_lib" where
  "incremental_initialization env s =
     (if embedded_files s = [] then initialize env True s
      else
        (let ready = lib_is_ready s
         in if \<not> ready then
              (if embedder s = None then (Some LibraryError, s)
               else (None, load_dbs s))
            else (None, s)))"

subsection \<open>What a call of remove\_embeddings removes\<close>

text \<open>
  The paths a call addresses: its non-empty paths, stripped of their leading separators.
  The uuids it removes: those the profile maps an addressed path to. \<open>entry_uuids\<close> is
  the same for a single path.
\<close>

definition stripped_paths :: "string list \<Rightarrow> string set" where
  "stripped_paths relative_paths = lstrip_sep ` {p \<in> set relative_paths. p \<noteq> []}"

definition removed_uuids :: "string list \<Rightarrow> image_lib \<Rightarrow> uuid set" where
  "removed_uuids relative_paths s =
     {u. \<exists>p \<in> stripped_paths relative_paths. map_of (embedded_files s) p = Some u}"

definition entry_uuids :: "string \<Rightarrow> image_lib \<Rightarrow> uuid set" where
  "entry_uuids p s = (if p = [] then {} else set_option (map_of (embedded_files s) (lstrip_sep p)))"

subsection \<open>The phases of initialize\<close>

text \<open>
  \<open>reaches_lock\<close>: \<open>initialize\<close> passes its three early exits (the library is ready and
  no forced run is asked; the embedder is missing; the stores just loaded hold data and no
  forced run is asked) and gets to the lock. \<open>purged\<close> is the state at the lock: the
  stores loaded and, as the library is ready by then, cleaned. \<open>scan_start\<close> is the state
  in which the scan begins: the lock taken and the time of the scan saved.
\<close>

definition reaches_lock :: "bool \<Rightarrow> image_lib \<Rightarrow> bool" where
  "reaches_lock force_init s =
     (\<not> (lib_is_ready s \<and> \<not> force_init)
      \<and> \<not> (\<not> lib_is_ready s \<and> embedder s = None)
      \<and> \<not> (\<not> force_init \<and> 0 < row_count s \<and> \<not> db_is_empty s))"

definition purged :: "image_lib \<Rightarrow> image_lib" where
  "purged s =
     (let s1 = (if \<not> lib_is_ready s then load_dbs s else s)
      in if lib_is_ready s1 then table_clean_all_data (vector_db_clean_all_data s1) else s1)"

definition scan_start :: "scan_env \<Rightarrow> image_lib \<Rightarrow> image_lib" where
  "scan_start env s =
     (let s1 = (if \<not> lib_is_ready s then load_dbs s else s);
          s2 = (if lib_is_ready s1
                then table_clean_all_data (vector_db_clean_all_data s1) else s1)
      in save_metadata (s2\<lparr>scan_lock := True, last_scanned := now env\<rparr>))"

subsection \<open>Examples\<close>

text \<open>
  A fresh library of two valid images, a library that has been scanned once, and three
  environments: no cancel event, a cancel event set from the second poll on, and a later
  clock.
\<close>

definition new_lib :: image_lib where
  "new_lib =
     \<lparr>local_mode = True, files = [''a.png'', ''b.png''], valid_image = (\<lambda>p. True),
      data_folder = True, metadata_file = Some 5, last_scanned = 5, embedder = Some (\<lambda>p. [1, 2]),
      table_open = False, rows = [], vector_db_open = False, vectors = [], index_dim = None,
      staged = [], embedded_files = [], scan_profile_file = [], scan_lock = False,
      uuid_supply = 0, reported = []\<rparr>"

definition scanned_lib :: image_lib where
  "scanned_lib =
     \<lparr>local_mode = True, files = [''a.png'', ''b.png''], valid_image = (\<lambda>p. True),
      data_folder = True, metadata_file = Some 9, last_scanned = 9, embedder = Some (\<lambda>p. [1, 2]),
      table_open = True,
      rows = [\<lparr>rec_id = 1, rec_timestamp = 9, rec_uuid = 0, rec_path = [],
                rec_filename = ''a.png''\<rparr>,
              \<lparr>rec_id = 2, rec_timestamp = 9, rec_uuid = 1, rec_path = [],
                rec_filename = ''b.png''\<rparr>],
      vector_db_open = True, vectors = [(0, [1, 2]), (1, [1, 2])], index_dim = Some 2,
      staged = [], embedded_files = [(''a.png'', 0), (''b.png'', 1)],
      scan_profile_file = [(''a.png'', 0), (''b.png'', 1)], scan_lock = False,
      uuid_supply = 2, reported = [0, 50]\<rparr>"

definition env_plain :: scan_env where
  "env_plain = \<lparr>now = 9, cancel_event = None\<rparr>"

definition env_cancel :: scan_env where
  "env_cancel = \<lparr>now = 9, cancel_event = Some (\<lambda>k. 1 \<le> k)\<rparr>"

definition env_later :: scan_env where
  "env_later = \<lparr>now = 12, cancel_event = Some (\<lambda>k. 1 \<le> k)\<rparr>"

text \<open>
  Dual-store consistency of a state: every uuid of the in-memory profile, and every uuid
  of the persisted profile, has exactly one row and exactly one vector.
\<close>

definition has_one_record_and_vector :: "image_lib \<Rightarrow> uuid \<Rightarrow> bool" where
  "has_one_record_and_vector s u =
     (length (select_row_by_uuid u s) = 1 \<and> length (filter (\<lambda>kv. fst kv = u) (vectors s)) = 1)"

definition dual_store_consistent :: "image_lib \<Rightarrow> bool" where
  "dual_store_consistent s =
     (list_all (\<lambda>e. has_one_record_and_vector s (snd e)) (embedded_files s)
      \<and> list_all (\<lambda>e. has_one_record_and_vector s (snd e)) (scan_profile_file s))"

subsection \<open>Lemmas on the progress percentage\<close>

lemma round_half_even_le: "x \<le> of_int N \<Longrightarrow> round_half_even x \<le> N"
proof -
  assume a: "x \<le> of_int N"
  have f: "\<lfloor>x\<rfloor> \<le> N" using a by (simp add: floor_le_iff)
  have g: "\<lfloor>x\<rfloor> + 1 \<le> N" if "x - of_int \<lfloor>x\<rfloor> \<ge> 1 / 2"
  proof -
    have "of_int \<lfloor>x\<rfloor> < x" using that by linarith
    then have "of_int \<lfloor>x\<rfloor> < (of_int N :: real)" using a by linarith
    then show ?thesis by simp
  qed
  show ?thesis
    unfolding round_half_even_def Let_def using f g by auto
qed

lemma round_half_even_nonneg: "0 \<le> x \<Longrightarrow> 0 \<le> round_half_even x"
  unfolding round_half_even_def Let_def by auto

lemma round_half_even_of_int: "round_half_even (of_int n) = n"
  by (simp add: round_half_even_def)

lemma powr_nonpos_exponent:
  "e \<le> 0 \<Longrightarrow> (2::real) powr of_int e * 2 ^ nat (- e) = 1"
  by (simp add: powr_real_of_int)

lemma round_double_nonneg: "0 \<le> x \<Longrightarrow> 0 \<le> round_double x"
  by (simp add: round_double_def round_half_even_nonneg)

text \<open>
  Rounding does not pass an integer that is itself a binary64 number of the same or a
  larger exponent.
\<close>

lemma round_double_le:
  assumes "0 < x" and "x \<le> of_int Y" and "double_exponent x \<le> 0"
  shows "round_double x \<le> of_int Y"
proof -
  define e where "e = double_exponent x"
  define p where "p = (2::real) powr of_int e"
  define n where "n = nat (- e)"
  have p0: "0 < p" by (simp add: p_def)
  have pn: "p * 2 ^ n = 1"
    unfolding p_def n_def using assms(3) e_def by (simp add: powr_nonpos_exponent)
  then have inv: "1 / p = 2 ^ n" using p0 by (simp add: field_simps)
  have "x / p = x * (1 / p)" by simp
  also have "\<dots> = x * 2 ^ n" by (simp only: inv)
  also have "\<dots> \<le> of_int Y * 2 ^ n" using assms(2) by simp
  also have "\<dots> = of_int (Y * 2 ^ n)" by simp
  finally have "round_half_even (x / p) \<le> Y * 2 ^ n" by (rule round_half_even_le)
  then have "(of_int (round_half_even (x / p)) :: real) \<le> of_int (Y * 2 ^ n)"
    by (simp only: of_int_le_iff)
  then have "of_int (round_half_even (x / p)) * p \<le> of_int (Y * 2 ^ n) * p"
    using p0 by (simp only: mult_le_cancel_right_pos)
  also have "\<dots> = of_int Y * (p * 2 ^ n)" by simp
  also have "\<dots> = of_int Y" by (simp only: pn mult_1_right)
  finally show ?thesis
    using assms(1) by (simp add: round_double_def p_def e_def)
qed

lemma double_exponent_small: "0 < x \<Longrightarrow> x < 2 ^ 53 \<Longrightarrow> double_exponent x \<le> 0"
proof -
  assume a: "0 < x" "x < 2 ^ 53"
  have "log 2 x < log 2 (2 ^ 53)" using a by (subst log_less_cancel_iff) simp_all
  also have "log 2 ((2::real) ^ 53) = 53" by (subst log_pow_cancel) simp_all
  finally have "log 2 x < 53" .
  then have "\<lfloor>log 2 x\<rfloor> < 53" by (simp add: floor_less_iff)
  then show ?thesis using a by (simp add: double_exponent_def)
qed

lemma round_double_le_small:
  "0 \<le> x \<Longrightarrow> x \<le> of_int Y \<Longrightarrow> Y < 2 ^ 53 \<Longrightarrow> round_double x \<le> of_int Y"
proof (cases "x = 0")
  case True
  assume "0 \<le> x" "x \<le> of_int Y"
  then show ?thesis using True by (simp add: round_double_def)
next
  case False
  assume a: "0 \<le> x" "x \<le> of_int Y" "Y < 2 ^ 53"
  have "(of_int Y :: real) < of_int (2 ^ 53)" using a(3) by (simp only: of_int_less_iff)
  then have "x < 2 ^ 53" using a(2) by simp
  then show ?thesis using a False by (intro round_double_le double_exponent_small) simp_all
qed

text \<open>
  The percentage of an item is between 0 and 100: the quotient of \<open>i < total\<close> rounds
  to at most 1, and its product with 100 rounds to at most 100.
\<close>

lemma progress_percent_bounds:
  assumes "i < n"
  shows "0 \<le> progress_percent i n \<and> progress_percent i n \<le> 100"
proof -
  define q where "q = int_truediv i n"
  have r: "0 \<le> real i / real n" "real i / real n \<le> of_int 1"
    using assms by simp_all
  have q0: "0 \<le> q" unfolding q_def int_truediv_def using r(1) by (rule round_double_nonneg)
  have q1: "q \<le> of_int 1" unfolding q_def int_truediv_def
    using r by (rule round_double_le_small) simp
  have m0: "0 \<le> q * 100" using q0 by simp
  have m1: "q * 100 \<le> of_int 100" using q1 by simp
  have p0: "0 \<le> float_mul q 100" unfolding float_mul_def using m0 by (rule round_double_nonneg)
  have p1: "float_mul q 100 \<le> of_int 100" unfolding float_mul_def
    using m0 m1 by (rule round_double_le_small) simp
  have "progress_percent i n = \<lfloor>float_mul q 100\<rfloor>"
    using p0 by (simp add: progress_percent_def py_int_def q_def)
  moreover have "0 \<le> \<lfloor>float_mul q 100\<rfloor>" using p0 by simp
  moreover have "\<lfloor>float_mul q 100\<rfloor> \<le> 100" using p1 by (simp add: floor_le_iff)
  ultimately show ?thesis by simp
qed

text \<open>The percentages of the two items of a list of two: 0 and 50, both exact.\<close>

lemma round_double_exact:
  assumes "x \<noteq> 0" and "x / 2 powr of_int (double_exponent x) = of_int m"
  shows "round_double x = x"
proof -
  have "round_double x = x / 2 powr of_int (double_exponent x) * 2 powr of_int (double_exponent x)"
    using assms by (simp add: round_double_def round_half_even_of_int)
  then show ?thesis by simp
qed

lemma two_powr_neg: "(2::real) powr of_int (- int n) = 1 / 2 ^ n"
  by (simp add: powr_minus_divide powr_realpow)

lemma double_exponent_half: "double_exponent (1 / 2) = - 53"
proof -
  have "\<lfloor>log 2 (1 / 2 :: real)\<rfloor> = - 1"
    by (subst floor_log_eq_powr_iff) (simp_all add: powr_minus)
  then show ?thesis by (simp add: double_exponent_def)
qed

lemma double_exponent_50: "double_exponent 50 = - 47"
proof -
  have "\<lfloor>log 2 (50 :: real)\<rfloor> = 5"
    by (subst floor_log_eq_powr_iff) simp_all
  then show ?thesis by (simp add: double_exponent_def)
qed

lemma round_double_half: "round_double (1 / 2) = 1 / 2"
proof (rule round_double_exact)
  show "(1 / 2 :: real) \<noteq> 0" by simp
  have h: "(2::real) powr (- 53) = 1 / 2 ^ 53"
    using two_powr_neg [of 53] by simp
  show "(1 / 2 :: real) / 2 powr of_int (double_exponent (1 / 2)) = of_int (2 ^ 52)"
    by (simp add: double_exponent_half h)
qed

lemma round_double_50: "round_double 50 = 50"
proof (rule round_double_exact)
  show "(50 :: real) \<noteq> 0" by simp
  have h: "(2::real) powr (- 47) = 1 / 2 ^ 47"
    using two_powr_neg [of 47] by simp
  show "(50 :: real) / 2 powr of_int (double_exponent 50) = of_int (50 * 2 ^ 47)"
    by (simp add: double_exponent_50 h)
qed

lemma progress_percent_two:
  "progress_percent 0 (Suc (Suc 0)) = 0"
  "progress_percent (Suc 0) (Suc (Suc 0)) = 50"
proof -
  show "progress_percent 0 (Suc (Suc 0)) = 0"
    by (simp add: progress_percent_def int_truediv_def float_mul_def py_int_def round_double_def)
  have h: "int_truediv (Suc 0) (Suc (Suc 0)) = 1 / 2"
    using round_double_half by (simp add: int_truediv_def)
  show "progress_percent (Suc 0) (Suc (Suc 0)) = 50"
    by (simp add: progress_percent_def float_mul_def py_int_def h round_double_50)
qed

subsection \<open>Evaluation on the examples\<close>

text \<open>
  The definitions and facts to unfold when a call is evaluated on one of the example
  states, which hold two files.
\<close>

lemma enumerate_from0_two: "enumerate_from0 [a, b] = [(0, a), (Suc 0, b)]"
  by (simp add: enumerate_from0_def upt_rec)

lemmas image_lib_defs =
  initialize_def incremental_initialization_def demolish_def delete_files_def
  remove_embeddings_def remove_embedding_def scan_and_initialize_def do_scan_targets_def
  enumerate_from0_two progress_percent_two progress_step_def embed_item_def consume_item_def
  write_embedding_entry_def lib_is_ready_def metadata_exists_def load_dbs_def
  save_metadata_def save_scan_profile_def report_progress_def persist_def
  insert_row_def next_row_id_def delete_row_by_uuid_def select_row_by_uuid_def
  row_count_def table_clean_all_data_def initialize_index_def flush_pipeline_def
  vector_db_add_def vector_db_remove_def vector_db_clean_all_data_def db_is_empty_def
  dirname_def basename_def lstrip_sep_def sep_def
  has_one_record_and_vector_def dual_store_consistent_def

subsection \<open>Lemmas on remove\_embeddings\<close>

lemma stripped_paths_Nil: "stripped_paths [] = {}"
  by (simp add: stripped_paths_def)

lemma stripped_paths_Cons:
  "stripped_paths (p # ps) =
     (if p = [] then stripped_paths ps else insert (lstrip_sep p) (stripped_paths ps))"
  by (auto simp: stripped_paths_def)

lemma map_of_filter_fst:
  "map_of (filter (\<lambda>e. fst e \<noteq> k) xs) q = (if q = k then None else map_of xs q)"
  by (induction xs) auto

lemma filter_absent_key:
  "map_of xs k = None \<Longrightarrow> filter (\<lambda>e. fst e \<noteq> k) xs = xs"
  by (induction xs) (auto split: if_splits)

lemma alist_delete_filter: "AList.delete k xs = filter (\<lambda>e. fst e \<noteq> k) xs"
  by (induction xs) auto

lemma remove_embedding_profile:
  "embedded_files (remove_embedding p s) =
     (if p = [] then embedded_files s
      else filter (\<lambda>e. fst e \<noteq> lstrip_sep p) (embedded_files s))"
  by (simp add: remove_embedding_def Let_def vector_db_remove_def delete_row_by_uuid_def
      alist_delete_filter filter_absent_key split: option.splits)

lemma filter_neq_sym: "filter (\<lambda>r. f r \<noteq> u) xs = filter (\<lambda>r. f r \<notin> {u}) xs"
  by simp

lemma remove_embedding_rows:
  "rows (remove_embedding p s) = filter (\<lambda>r. rec_uuid r \<notin> entry_uuids p s) (rows s)"
proof (cases "p = []")
  case True
  then show ?thesis by (simp add: remove_embedding_def entry_uuids_def)
next
  case False
  show ?thesis
  proof (cases "map_of (embedded_files s) (lstrip_sep p)")
    case None
    with False show ?thesis by (simp add: remove_embedding_def entry_uuids_def)
  next
    case (Some u)
    with False show ?thesis
      by (simp add: remove_embedding_def entry_uuids_def Let_def vector_db_remove_def
          delete_row_by_uuid_def)
  qed
qed

lemma remove_embedding_vectors:
  "vectors (remove_embedding p s) = filter (\<lambda>kv. fst kv \<notin> entry_uuids p s) (vectors s)"
proof (cases "p = []")
  case True
  then show ?thesis by (simp add: remove_embedding_def entry_uuids_def)
next
  case False
  show ?thesis
  proof (cases "map_of (embedded_files s) (lstrip_sep p)")
    case None
    with False show ?thesis by (simp add: remove_embedding_def entry_uuids_def)
  next
    case (Some u)
    with False show ?thesis
      by (simp add: remove_embedding_def entry_uuids_def Let_def vector_db_remove_def
          delete_row_by_uuid_def)
  qed
qed

lemma map_of_remove_embedding:
  "map_of (embedded_files (remove_embedding p s)) q =
     (if p \<noteq> [] \<and> q = lstrip_sep p then None else map_of (embedded_files s) q)"
  by (simp add: remove_embedding_profile map_of_filter_fst)

lemma removed_uuids_Cons:
  "removed_uuids (p # ps) s = entry_uuids p s \<union> removed_uuids ps (remove_embedding p s)"
proof (cases "p = []")
  case True
  then show ?thesis
    by (simp add: removed_uuids_def entry_uuids_def stripped_paths_Cons map_of_remove_embedding)
next
  case False
  show ?thesis
  proof (rule set_eqI)
    fix u
    show "u \<in> removed_uuids (p # ps) s \<longleftrightarrow>
          u \<in> entry_uuids p s \<union> removed_uuids ps (remove_embedding p s)"
      using False
      by (simp add: removed_uuids_def entry_uuids_def stripped_paths_Cons map_of_remove_embedding)
         (metis option.set_intros option.set_cases)
  qed
qed

lemma loop_profile:
  "embedded_files (remove_embeddings_loop ps s) =
     filter (\<lambda>e. fst e \<notin> stripped_paths ps) (embedded_files s)"
  by (induction ps arbitrary: s)
     (auto simp: stripped_paths_Nil stripped_paths_Cons remove_embedding_profile intro: filter_cong)

lemma loop_rows:
  "rows (remove_embeddings_loop ps s) =
     filter (\<lambda>r. rec_uuid r \<notin> removed_uuids ps s) (rows s)"
proof (induction ps arbitrary: s)
  case Nil
  show ?case by (simp add: removed_uuids_def stripped_paths_Nil)
next
  case (Cons p ps)
  show ?case
    by (simp add: Cons.IH remove_embedding_rows removed_uuids_Cons conj_commute)
qed

lemma loop_vectors:
  "vectors (remove_embeddings_loop ps s) =
     filter (\<lambda>kv. fst kv \<notin> removed_uuids ps s) (vectors s)"
proof (induction ps arbitrary: s)
  case Nil
  show ?case by (simp add: removed_uuids_def stripped_paths_Nil)
next
  case (Cons p ps)
  show ?case
    by (simp add: Cons.IH remove_embedding_vectors removed_uuids_Cons conj_commute)
qed

subsection \<open>Lemmas on the scan\<close>

lemma vector_db_add_frame:
  "last_scanned (snd (vector_db_add u v sp s)) = last_scanned s"
  "metadata_file (snd (vector_db_add u v sp s)) = metadata_file s"
  "reported (snd (vector_db_add u v sp s)) = reported s"
  by (simp_all add: vector_db_add_def flush_pipeline_def Let_def split: option.splits)

lemma write_embedding_entry_frame:
  "last_scanned (snd (write_embedding_entry ts p v sp s)) = last_scanned s"
  "metadata_file (snd (write_embedding_entry ts p v sp s)) = metadata_file s"
  "reported (snd (write_embedding_entry ts p v sp s)) = reported s"
proof -
  let ?s2 = "insert_row ts (uuid_supply s) (dirname p) (basename p) (s\<lparr>uuid_supply := Suc (uuid_supply s)\<rparr>)"
  obtain r s3 where a: "vector_db_add (uuid_supply s) v sp ?s2 = (r, s3)"
    by (cases "vector_db_add (uuid_supply s) v sp ?s2")
  have f: "last_scanned s3 = last_scanned s" "metadata_file s3 = metadata_file s" "reported s3 = reported s"
    using vector_db_add_frame [of "uuid_supply s" v sp ?s2] a by (simp_all add: insert_row_def)
  show "last_scanned (snd (write_embedding_entry ts p v sp s)) = last_scanned s"
    "metadata_file (snd (write_embedding_entry ts p v sp s)) = metadata_file s"
    "reported (snd (write_embedding_entry ts p v sp s)) = reported s"
    using a f by (simp_all add: write_embedding_entry_def Let_def split: option.splits)
qed

lemma consume_item_frame:
  "last_scanned (snd (snd (consume_item env so sp p e loc s))) = last_scanned s"
  "metadata_file (snd (snd (consume_item env so sp p e loc s))) = metadata_file s"
  "reported (snd (snd (consume_item env so sp p e loc s))) = reported s"
  "previous_progress (fst (snd (consume_item env so sp p e loc s))) = previous_progress loc"
  by (simp_all add: consume_item_def Let_def split_beta initialize_index_def
      write_embedding_entry_frame split: option.splits)


lemma progress_step_frame:
  "last_scanned (snd (progress_step env i n loc s)) = last_scanned s"
  "metadata_file (snd (progress_step env i n loc s)) = metadata_file s"
  by (simp_all add: progress_step_def Let_def report_progress_def)

lemma scan_loop_frame:
  "scan_loop env so gso sp n xs loc s = (r, loc', s') \<Longrightarrow>
     last_scanned s' = last_scanned s \<and> metadata_file s' = metadata_file s"
proof (induction xs arbitrary: loc s)
  case Nil
  then show ?case by simp
next
  case (Cons x xs)
  obtain i p where x: "x = (i, p)" by (cases x)
  show ?case
  proof (cases "valid_image s p")
    case False
    with Cons.prems x have "scan_loop env so gso sp n xs loc s = (r, loc', s')" by simp
    then show ?thesis by (rule Cons.IH)
  next
    case True
    obtain loc1 s1 where ps: "progress_step env i n loc s = (loc1, s1)"
      by (cases "progress_step env i n loc s")
    have s1: "last_scanned s1 = last_scanned s" "metadata_file s1 = metadata_file s"
      using progress_step_frame [of env i n loc s] ps by simp_all
    show ?thesis
    proof (cases "embed_item gso p s1")
      case (Inl e)
      with Cons.prems x True ps have "s' = s1" by simp
      with s1 show ?thesis by simp
    next
      case (Inr emb)
      obtain r2 loc2 s2 where ci: "consume_item env so sp p emb loc1 s1 = (r2, loc2, s2)"
        by (cases "consume_item env so sp p emb loc1 s1") auto
      have s2: "last_scanned s2 = last_scanned s" "metadata_file s2 = metadata_file s"
        using consume_item_frame(1,2) [of env so sp p emb loc1 s1] ci s1 by simp_all
      show ?thesis
      proof (cases r2)
        case None
        with Cons.prems x True Inr ci ps
        have "scan_loop env so gso sp n xs loc2 s2 = (r, loc', s')" by simp
        from Cons.IH [OF this] s2 show ?thesis by simp
      next
        case (Some e)
        with Cons.prems x True Inr ci ps have "s' = s2" by simp
        with s2 show ?thesis by simp
      qed
    qed
  qed
qed

lemma progress_step_reported:
  assumes "progress_step env i n loc s = (loc1, s1)"
  shows "(reported s1 = reported s \<and> previous_progress loc1 = previous_progress loc)
       \<or> (reported s1 = reported s @ [progress_percent i n]
          \<and> previous_progress loc1 = progress_percent i n
          \<and> previous_progress loc < progress_percent i n)"
  using assms by (auto simp: progress_step_def Let_def report_progress_def split: if_splits)

lemma scan_loop_reported:
  assumes "scan_loop env so gso sp n xs loc s = (r, loc', s')"
    and "\<forall>x \<in> set xs. fst x < n"
  shows "\<exists>vs. reported s' = reported s @ vs \<and> sorted_wrt (<) vs
           \<and> (\<forall>v \<in> set vs. previous_progress loc < v \<and> v \<le> 100)"
  using assms
proof (induction xs arbitrary: loc s)
  case Nil
  then show ?case by simp
next
  case (Cons x xs)
  obtain i p where x: "x = (i, p)" by (cases x)
  from Cons.prems(2) have rest: "\<forall>x \<in> set xs. fst x < n" by simp
  from Cons.prems(2) x have "i < n" by simp
  then have here: "progress_percent i n \<le> 100" using progress_percent_bounds by blast
  show ?case
  proof (cases "valid_image s p")
    case False
    with Cons.prems(1) x have "scan_loop env so gso sp n xs loc s = (r, loc', s')" by simp
    from Cons.IH [OF this rest] show ?thesis .
  next
    case True
    obtain loc1 s1 where ps: "progress_step env i n loc s = (loc1, s1)"
      by (cases "progress_step env i n loc s")
    from progress_step_reported [OF ps] here
    obtain w where w: "reported s1 = reported s @ w" "sorted_wrt (<) w"
      "\<forall>v \<in> set w. previous_progress loc < v \<and> v \<le> 100"
      "\<forall>v \<in> set w. v \<le> previous_progress loc1"
      "previous_progress loc \<le> previous_progress loc1"
    proof (elim disjE conjE)
      assume "reported s1 = reported s" "previous_progress loc1 = previous_progress loc"
      then show thesis using that [of "[]"] by simp
    next
      assume "reported s1 = reported s @ [progress_percent i n]"
        "previous_progress loc1 = progress_percent i n"
        "previous_progress loc < progress_percent i n"
      then show thesis using that [of "[progress_percent i n]"] here by simp
    qed
    show ?thesis
    proof (cases "embed_item gso p s1")
      case (Inl e)
      with Cons.prems(1) x True ps have "s' = s1" by simp
      with w show ?thesis by blast
    next
      case (Inr emb)
      obtain r2 loc2 s2 where ci: "consume_item env so sp p emb loc1 s1 = (r2, loc2, s2)"
        by (cases "consume_item env so sp p emb loc1 s1") auto
      have s2: "reported s2 = reported s1" "previous_progress loc2 = previous_progress loc1"
        using consume_item_frame(3,4) [of env so sp p emb loc1 s1] ci by simp_all
      show ?thesis
      proof (cases r2)
        case (Some e)
        with Cons.prems(1) x True Inr ci ps have "s' = s2" by simp
        with w s2 show ?thesis by auto
      next
        case None
        with Cons.prems(1) x True Inr ci ps
        have "scan_loop env so gso sp n xs loc2 s2 = (r, loc', s')" by simp
        from Cons.IH [OF this rest]
        obtain vs where vs: "reported s' = reported s2 @ vs" "sorted_wrt (<) vs"
          "\<forall>v \<in> set vs. previous_progress loc2 < v \<and> v \<le> 100" by blast
        have 1: "reported s' = reported s @ (w @ vs)" using vs(1) s2(1) w(1) by simp
        have 2: "sorted_wrt (<) (w @ vs)"
          using w(2,4) vs(2,3) s2(2) by (fastforce simp: sorted_wrt_append)
        have 3: "\<forall>v \<in> set (w @ vs). previous_progress loc < v \<and> v \<le> 100"
          using w(3,5) vs(3) s2(2) by auto
        from 1 2 3 show ?thesis by blast
      qed
    qed
  qed
qed


lemma do_scan_targets_full: "do_scan_targets False s = (None, remdups (files s), s)"
  by (simp add: do_scan_targets_def)

lemma enumerate_from0_index: "x \<in> set (enumerate_from0 xs) \<Longrightarrow> fst x < length xs"
proof -
  assume "x \<in> set (enumerate_from0 xs)"
  then have "(fst x, snd x) \<in> set (zip [0..<length xs] xs)"
    by (simp add: enumerate_from0_def)
  then have "fst x \<in> set [0..<length xs]" by (rule set_zip_leftD)
  then show ?thesis by simp
qed

lemma scan_and_initialize_frame:
  "last_scanned (snd (scan_and_initialize env so s)) = last_scanned s"
  "metadata_file (snd (scan_and_initialize env so s)) = metadata_file s"
proof -
  let ?xs = "remdups (files s)"
  let ?loc0 = "\<lparr>previous_progress = - 1, dimension = - 1, polls = 0\<rparr>"
  obtain r loc s1 where sl:
    "scan_loop env so (if \<not> local_mode s then so else False) (\<not> local_mode s)
       (length ?xs) (enumerate_from0 ?xs) ?loc0 s = (r, loc, s1)"
    by (metis prod_cases3)
  from scan_loop_frame [OF sl]
  have f: "last_scanned s1 = last_scanned s" "metadata_file s1 = metadata_file s" by simp_all
  show "last_scanned (snd (scan_and_initialize env so s)) = last_scanned s"
    using f
    by (simp add: scan_and_initialize_def do_scan_targets_full sl Let_def flush_pipeline_def
        save_scan_profile_def persist_def initialize_index_def split: option.splits)
  show "metadata_file (snd (scan_and_initialize env so s)) = metadata_file s"
    using f
    by (simp add: scan_and_initialize_def do_scan_targets_full sl Let_def flush_pipeline_def
        save_scan_profile_def persist_def initialize_index_def split: option.splits)
qed

lemma scan_and_initialize_reported:
  "\<exists>vs. reported (snd (scan_and_initialize env so s)) = reported s @ vs
           \<and> sorted_wrt (<) vs \<and> (\<forall>v \<in> set vs. 0 \<le> v \<and> v \<le> 100)"
proof -
  let ?xs = "remdups (files s)"
  let ?loc0 = "\<lparr>previous_progress = - 1, dimension = - 1, polls = 0\<rparr>"
  obtain r loc s1 where sl:
    "scan_loop env so (if \<not> local_mode s then so else False) (\<not> local_mode s)
       (length ?xs) (enumerate_from0 ?xs) ?loc0 s = (r, loc, s1)"
    by (metis prod_cases3)
  have b: "\<forall>x \<in> set (enumerate_from0 ?xs). fst x < length ?xs"
    using enumerate_from0_index by blast
  from scan_loop_reported [OF sl b]
  obtain vs where vs: "reported s1 = reported s @ vs" "sorted_wrt (<) vs"
    "\<forall>v \<in> set vs. previous_progress ?loc0 < v \<and> v \<le> 100" by blast
  have "reported (snd (scan_and_initialize env so s)) = reported s1"
    by (simp add: scan_and_initialize_def do_scan_targets_full sl Let_def flush_pipeline_def
        save_scan_profile_def persist_def initialize_index_def split: option.splits)
  moreover have "\<forall>v \<in> set vs. 0 \<le> v \<and> v \<le> 100"
    using vs(3) by auto
  ultimately show ?thesis using vs(1,2) by auto
qed

subsection \<open>Lemmas on initialize\<close>

lemma initialize_early:
  "\<not> reaches_lock force_init s \<Longrightarrow>
     initialize env force_init s =
       (if lib_is_ready s \<and> \<not> force_init then (None, s)
        else if \<not> lib_is_ready s \<and> embedder s = None then (Some LibraryError, s)
        else (None, load_dbs s))"
  by (auto simp: initialize_def reaches_lock_def Let_def load_dbs_def row_count_def db_is_empty_def)

lemma initialize_locked:
  "reaches_lock force_init s \<Longrightarrow> scan_lock s \<Longrightarrow>
     initialize env force_init s = (Some LockAcquisitionFailure, purged s)"
  by (auto simp: initialize_def reaches_lock_def purged_def Let_def load_dbs_def row_count_def
      db_is_empty_def table_clean_all_data_def vector_db_clean_all_data_def lib_is_ready_def
      metadata_exists_def)

lemma initialize_scans:
  "reaches_lock force_init s \<Longrightarrow> \<not> scan_lock s \<Longrightarrow>
     initialize env force_init s =
       (case scan_and_initialize env False (scan_start env s) of
          (Some TaskCancellationException, s4) \<Rightarrow>
            (None, (table_clean_all_data (vector_db_clean_all_data s4))\<lparr>scan_lock := False\<rparr>)
        | (r, s4) \<Rightarrow> (r, s4\<lparr>scan_lock := False\<rparr>))"
  by (auto simp: initialize_def reaches_lock_def scan_start_def Let_def load_dbs_def row_count_def
      db_is_empty_def table_clean_all_data_def vector_db_clean_all_data_def lib_is_ready_def
      metadata_exists_def)

lemma purged_frame:
  "embedded_files (purged s) = embedded_files s"
  "scan_profile_file (purged s) = scan_profile_file s"
  "reported (purged s) = reported s"
  "uuid_supply (purged s) = uuid_supply s"
  "last_scanned (purged s) = last_scanned s"
  "metadata_file (purged s) = metadata_file s"
  "files (purged s) = files s"
  "scan_lock (purged s) = scan_lock s"
  by (simp_all add: purged_def Let_def load_dbs_def table_clean_all_data_def
      vector_db_clean_all_data_def)

lemma load_dbs_frame:
  "embedded_files (load_dbs s) = embedded_files s"
  "scan_profile_file (load_dbs s) = scan_profile_file s"
  "reported (load_dbs s) = reported s"
  "uuid_supply (load_dbs s) = uuid_supply s"
  "last_scanned (load_dbs s) = last_scanned s"
  "metadata_file (load_dbs s) = metadata_file s"
  "files (load_dbs s) = files s"
  "rows (load_dbs s) = rows s"
  "vectors (load_dbs s) = vectors s"
  "scan_lock (load_dbs s) = scan_lock s"
  by (simp_all add: load_dbs_def)

lemma scan_start_frame:
  "last_scanned (scan_start env s) = now env"
  "metadata_file (scan_start env s) = Some (now env)"
  "reported (scan_start env s) = reported s"
  by (simp_all add: scan_start_def Let_def save_metadata_def load_dbs_def
      table_clean_all_data_def vector_db_clean_all_data_def)

lemma initialize_after_scan:
  assumes "reaches_lock force_init s" and "\<not> scan_lock s"
  shows "last_scanned (snd (initialize env force_init s)) = now env"
    and "metadata_file (snd (initialize env force_init s)) = Some (now env)"
    and "\<exists>s4. snd (scan_and_initialize env False (scan_start env s)) = s4
           \<and> reported (snd (initialize env force_init s)) = reported s4"
proof -
  obtain r s4 where sc: "scan_and_initialize env False (scan_start env s) = (r, s4)"
    by (cases "scan_and_initialize env False (scan_start env s)")
  have f: "last_scanned s4 = now env" "metadata_file s4 = Some (now env)"
    using scan_and_initialize_frame [of env False "scan_start env s"] sc
    by (simp_all add: scan_start_frame)
  have i: "initialize env force_init s =
       (case (r, s4) of
          (Some TaskCancellationException, s4) \<Rightarrow>
            (None, (table_clean_all_data (vector_db_clean_all_data s4))\<lparr>scan_lock := False\<rparr>)
        | (r, s4) \<Rightarrow> (r, s4\<lparr>scan_lock := False\<rparr>))"
    using initialize_scans [OF assms, of env] sc by simp
  show "last_scanned (snd (initialize env force_init s)) = now env"
    using f by (simp add: i table_clean_all_data_def vector_db_clean_all_data_def
        split: option.splits error.splits)
  show "metadata_file (snd (initialize env force_init s)) = Some (now env)"
    using f by (simp add: i table_clean_all_data_def vector_db_clean_all_data_def
        split: option.splits error.splits)
  show "\<exists>s4. snd (scan_and_initialize env False (scan_start env s)) = s4
           \<and> reported (snd (initialize env force_init s)) = reported s4"
    by (simp add: i sc table_clean_all_data_def vector_db_clean_all_data_def
        split: option.splits error.splits)
qed

lemma initialize_no_scan:
  assumes "\<not> (reaches_lock force_init s \<and> \<not> scan_lock s)"
  shows "last_scanned (snd (initialize env force_init s)) = last_scanned s"
    and "metadata_file (snd (initialize env force_init s)) = metadata_file s"
    and "reported (snd (initialize env force_init s)) = reported s"
proof -
  show "last_scanned (snd (initialize env force_init s)) = last_scanned s"
  proof (cases "reaches_lock force_init s")
    case True
    with assms have "scan_lock s" by simp
    from initialize_locked [OF True this] show ?thesis by (simp add: purged_frame)
  next
    case False
    from initialize_early [OF False] show ?thesis by (simp add: load_dbs_frame)
  qed
  show "metadata_file (snd (initialize env force_init s)) = metadata_file s"
  proof (cases "reaches_lock force_init s")
    case True
    with assms have "scan_lock s" by simp
    from initialize_locked [OF True this] show ?thesis by (simp add: purged_frame)
  next
    case False
    from initialize_early [OF False] show ?thesis by (simp add: load_dbs_frame)
  qed
  show "reported (snd (initialize env force_init s)) = reported s"
  proof (cases "reaches_lock force_init s")
    case True
    with assms have "scan_lock s" by simp
    from initialize_locked [OF True this] show ?thesis by (simp add: purged_frame)
  next
    case False
    from initialize_early [OF False] show ?thesis by (simp add: load_dbs_frame)
  qed
qed

lemma remove_embedding_record:
  "remove_embedding p s =
     s\<lparr>vectors := vectors (remove_embedding p s), rows := rows (remove_embedding p s),
       embedded_files := embedded_files (remove_embedding p s)\<rparr>"
  by (simp add: remove_embedding_def Let_def vector_db_remove_def delete_row_by_uuid_def
      split: option.splits)

lemma loop_record:
  "remove_embeddings_loop ps s =
     s\<lparr>vectors := vectors (remove_embeddings_loop ps s),
       rows := rows (remove_embeddings_loop ps s),
       embedded_files := embedded_files (remove_embeddings_loop ps s)\<rparr>"
proof (induction ps arbitrary: s)
  case Nil
  show ?case by simp
next
  case (Cons p ps)
  have "remove_embeddings_loop (p # ps) s = remove_embeddings_loop ps (remove_embedding p s)"
    by simp
  also have "\<dots> = (remove_embedding p s)
      \<lparr>vectors := vectors (remove_embeddings_loop ps (remove_embedding p s)),
       rows := rows (remove_embeddings_loop ps (remove_embedding p s)),
       embedded_files := embedded_files (remove_embeddings_loop ps (remove_embedding p s))\<rparr>"
    by (rule Cons.IH)
  also have "\<dots> = s
      \<lparr>vectors := vectors (remove_embeddings_loop ps (remove_embedding p s)),
       rows := rows (remove_embeddings_loop ps (remove_embedding p s)),
       embedded_files := embedded_files (remove_embeddings_loop ps (remove_embedding p s))\<rparr>"
    by (subst remove_embedding_record) simp
  finally show ?case by simp
qed

text \<open>
  Whatever the disk holds, \<open>incremental_initialization\<close> on a ready library with a
  non-empty profile returns the state it was given.
\<close>

lemma incremental_initialization_nonempty:
  "embedded_files s \<noteq> [] \<Longrightarrow> lib_is_ready s \<Longrightarrow> incremental_initialization env s = (None, s)"
  by (simp add: incremental_initialization_def)

text \<open>
  While the lock is held: \<open>demolish\<close> fails at once with \<open>LockAcquisitionFailure\<close> and
  changes nothing; \<open>initialize\<close>, when it gets to the lock, fails with
  \<open>LockAcquisitionFailure\<close> without scanning (no profile entry, no uuid drawn, no progress
  reported, no scan time saved); when it takes one of its early exits it never consults
  the lock; \<open>incremental_initialization\<close> on an empty profile is a forced \<open>initialize\<close>.
\<close>

lemma lock_held_calls:
  assumes "scan_lock s"
  shows "demolish s = (Some LockAcquisitionFailure, s)
       \<and> (reaches_lock force_init s \<longrightarrow>
            (\<exists>s'. initialize env force_init s = (Some LockAcquisitionFailure, s')
                \<and> embedded_files s' = embedded_files s
                \<and> scan_profile_file s' = scan_profile_file s
                \<and> uuid_supply s' = uuid_supply s
                \<and> reported s' = reported s
                \<and> last_scanned s' = last_scanned s
                \<and> metadata_file s' = metadata_file s
                \<and> files s' = files s
                \<and> scan_lock s'))
       \<and> (\<not> reaches_lock force_init s \<longrightarrow>
            (\<exists>r s'. initialize env force_init s = (r, s')
                \<and> r \<noteq> Some LockAcquisitionFailure
                \<and> rows s' = rows s \<and> vectors s' = vectors s
                \<and> embedded_files s' = embedded_files s
                \<and> uuid_supply s' = uuid_supply s
                \<and> reported s' = reported s
                \<and> scan_lock s'))
       \<and> (embedded_files s = [] \<longrightarrow>
            incremental_initialization env s = initialize env True s)"
proof (intro conjI impI)
  show "demolish s = (Some LockAcquisitionFailure, s)"
    using assms by (simp add: demolish_def)
next
  assume r: "reaches_lock force_init s"
  have "initialize env force_init s = (Some LockAcquisitionFailure, purged s)"
    using r assms by (rule initialize_locked)
  then show "\<exists>s'. initialize env force_init s = (Some LockAcquisitionFailure, s')
      \<and> embedded_files s' = embedded_files s
      \<and> scan_profile_file s' = scan_profile_file s
      \<and> uuid_supply s' = uuid_supply s
      \<and> reported s' = reported s
      \<and> last_scanned s' = last_scanned s
      \<and> metadata_file s' = metadata_file s
      \<and> files s' = files s
      \<and> scan_lock s'"
    using assms by (simp add: purged_frame)
next
  assume r: "\<not> reaches_lock force_init s"
  show "\<exists>r s'. initialize env force_init s = (r, s')
      \<and> r \<noteq> Some LockAcquisitionFailure
      \<and> rows s' = rows s \<and> vectors s' = vectors s
      \<and> embedded_files s' = embedded_files s
      \<and> uuid_supply s' = uuid_supply s
      \<and> reported s' = reported s
      \<and> scan_lock s'"
    using assms by (simp add: initialize_early [OF r] load_dbs_frame)
next
  assume "embedded_files s = []"
  then show "incremental_initialization env s = initialize env True s"
    by (simp add: incremental_initialization_def)
qed

subsection \<open>Claims on the image library\<close>

text \<open>
  Claim C1 fails on the code. The library \<open>scanned_lib\<close> is what a full scan of the
  fresh library leaves, and it is consistent. A forced \<open>initialize\<close> on it, cancelled at
  the second item, returns normally with both stores cleaned while the in-memory profile
  maps \<open>a.png\<close> and \<open>b.png\<close> to uuids, and the persisted profile still holds the entries of
  the first scan: uuids of the profile with no row and no vector.
\<close>

theorem cancelled_scan_breaks_consistency:
  "initialize env_plain False new_lib = (None, scanned_lib)
   \<and> dual_store_consistent scanned_lib
   \<and> initialize env_later True scanned_lib =
       (None, scanned_lib
          \<lparr>rows := [], vectors := [], metadata_file := Some 12, last_scanned := 12,
           embedded_files := [(''a.png'', 2), (''b.png'', 1)],
           uuid_supply := 3, reported := [0, 50, 0, 50]\<rparr>)
   \<and> \<not> dual_store_consistent (snd (initialize env_later True scanned_lib))"
  by (simp add: new_lib_def scanned_lib_def env_plain_def env_later_def image_lib_defs)

text \<open>
  Claim C2 fails on the code. On the fresh library, a scan cancelled at the second item
  returns normally and leaves both stores as they were (empty), but the profile entry
  written for the first item is not undone: the in-memory profile, empty before the scan,
  maps \<open>a.png\<close> to a uuid that neither store holds. The next call that persists the
  profile writes that entry to disk.
\<close>

theorem cancelled_scan_keeps_profile_entry:
  "initialize env_cancel False new_lib =
     (None, new_lib
        \<lparr>table_open := True, vector_db_open := True, index_dim := Some 2,
         metadata_file := Some 9, last_scanned := 9,
         embedded_files := [(''a.png'', 0)], uuid_supply := 1, reported := [0, 50]\<rparr>)
   \<and> rows new_lib = [] \<and> vectors new_lib = [] \<and> embedded_files new_lib = []
   \<and> scan_profile_file
        (snd (remove_embeddings [''zzz''] (snd (initialize env_cancel False new_lib))))
       = [(''a.png'', 0)]"
  by (simp add: new_lib_def env_cancel_def image_lib_defs)

text \<open>
  Claim C3 fails on the code. The profile holds \<open>a.png\<close> and \<open>b.png\<close>; on disk \<open>b.png\<close> is
  gone (the file G) and \<open>f.png\<close> is new (the file F). \<open>incremental_initialization\<close>
  returns without changing anything: the row, vector and profile entry of G remain, and
  nothing is written for F.
\<close>

theorem incremental_initialization_does_not_scan:
  "incremental_initialization env_plain (scanned_lib\<lparr>files := [''a.png'', ''f.png'']\<rparr>) =
     (None, scanned_lib\<lparr>files := [''a.png'', ''f.png'']\<rparr>)
   \<and> map_of (embedded_files scanned_lib) ''b.png'' = Some 1
   \<and> map_of (embedded_files scanned_lib) ''f.png'' = None"
  by (simp add: scanned_lib_def env_plain_def image_lib_defs)

text \<open>
  Claim C5 fails on the code. \<open>initialize\<close> cleans the two stores of a ready library
  before it tries the lock. With the lock held (a scan is running), a forced \<open>initialize\<close>
  on the scanned library does fail with \<open>LockAcquisitionFailure\<close>, but only after it has
  deleted every row and every vector. \<open>demolish\<close>, called on the same state, tries the
  lock first and deletes nothing.
\<close>

theorem locked_initialize_purges_stores:
  "scan_lock (scanned_lib\<lparr>scan_lock := True\<rparr>)
   \<and> rows (scanned_lib\<lparr>scan_lock := True\<rparr>) \<noteq> []
   \<and> vectors (scanned_lib\<lparr>scan_lock := True\<rparr>) \<noteq> []
   \<and> initialize env_plain True (scanned_lib\<lparr>scan_lock := True\<rparr>) =
       (Some LockAcquisitionFailure, scanned_lib\<lparr>scan_lock := True, rows := [], vectors := []\<rparr>)
   \<and> demolish (scanned_lib\<lparr>scan_lock := True\<rparr>) =
       (Some LockAcquisitionFailure, scanned_lib\<lparr>scan_lock := True\<rparr>)"
  by (simp add: scanned_lib_def image_lib_defs)

text \<open>
  Claim C8, as amended. \<open>last_scanned\<close> is set to the current time, and persisted, when
  \<open>initialize\<close> starts its scan (right after taking the lock), and is not touched again:
  after an \<open>initialize\<close> that started a scan, whether the scan completed, was cancelled or
  failed, the in-memory and the persisted \<open>last_scanned\<close> are the time of that call; an
  \<open>initialize\<close> that started no scan leaves both unchanged.
\<close>

theorem last_scanned_at_scan_start:
  "(reaches_lock force_init s \<and> \<not> scan_lock s \<longrightarrow>
      last_scanned (snd (initialize env force_init s)) = now env
      \<and> metadata_file (snd (initialize env force_init s)) = Some (now env))
   \<and> (\<not> (reaches_lock force_init s \<and> \<not> scan_lock s) \<longrightarrow>
      last_scanned (snd (initialize env force_init s)) = last_scanned s
      \<and> metadata_file (snd (initialize env force_init s)) = metadata_file s)"
  using initialize_after_scan(1,2) [of force_init s env]
    initialize_no_scan(1,2) [of force_init s env]
  by blast

text \<open>
  Witness for C8: a forced \<open>initialize\<close> of the scanned library at time 12 (a scan
  starts), and an unforced one (no scan starts).
\<close>

theorem last_scanned_at_scan_start_witness:
  "last_scanned (snd (initialize env_later True scanned_lib)) = 12
   \<and> metadata_file (snd (initialize env_later True scanned_lib)) = Some 12
   \<and> last_scanned (snd (initialize env_later False scanned_lib)) = 9
   \<and> metadata_file (snd (initialize env_later False scanned_lib)) = Some 9"
proof -
  have a: "reaches_lock True scanned_lib \<and> \<not> scan_lock scanned_lib"
    by (simp add: reaches_lock_def scanned_lib_def image_lib_defs)
  have b: "\<not> (reaches_lock False scanned_lib \<and> \<not> scan_lock scanned_lib)"
    by (simp add: reaches_lock_def scanned_lib_def image_lib_defs)
  have n: "now env_later = 12" by (simp add: env_later_def)
  have l: "last_scanned scanned_lib = 9" "metadata_file scanned_lib = Some 9"
    by (simp_all add: scanned_lib_def)
  show ?thesis
    using last_scanned_at_scan_start [of True scanned_lib env_later]
      last_scanned_at_scan_start [of False scanned_lib env_later] a b n l
    by simp
qed

text \<open>
  Counterexample to C8 as stated: the scan of a forced \<open>initialize\<close> at time 12 is
  cancelled, \<open>initialize\<close> returns normally, and \<open>last_scanned\<close>, 9 before the call, is 12
  after it, in memory and on disk.
\<close>

theorem cancelled_scan_last_scanned_counterexample:
  "last_scanned scanned_lib = 9 \<and> metadata_file scanned_lib = Some 9
   \<and> fst (scan_and_initialize env_later False (scan_start env_later scanned_lib))
       = Some TaskCancellationException
   \<and> fst (initialize env_later True scanned_lib) = None
   \<and> last_scanned (snd (initialize env_later True scanned_lib)) = 12
   \<and> metadata_file (snd (initialize env_later True scanned_lib)) = Some 12"
  by (simp add: scanned_lib_def env_later_def scan_start_def image_lib_defs)

text \<open>
  Claim C9. The values one scan passes to \<open>report_progress\<close> are integers from 0 to 100
  in strictly increasing order: the sequence never decreases and never repeats the value
  reported before. This holds for \<open>__scan_and_initialize\<close> and for \<open>initialize\<close>, on every
  library and however the scan ends. The percentage is the one the code computes in
  floating point, \<open>int(i / total * 100)\<close>.
\<close>

theorem progress_reporting:
  "(\<exists>vs. reported (snd (scan_and_initialize env scan_only s)) = reported s @ vs
       \<and> sorted_wrt (<) vs \<and> (\<forall>v \<in> set vs. 0 \<le> v \<and> v \<le> 100))
   \<and> (\<exists>vs. reported (snd (initialize env force_init s)) = reported s @ vs
       \<and> sorted_wrt (<) vs \<and> (\<forall>v \<in> set vs. 0 \<le> v \<and> v \<le> 100))"
proof
  show "\<exists>vs. reported (snd (scan_and_initialize env scan_only s)) = reported s @ vs
            \<and> sorted_wrt (<) vs \<and> (\<forall>v \<in> set vs. 0 \<le> v \<and> v \<le> 100)"
    by (rule scan_and_initialize_reported)
  show "\<exists>vs. reported (snd (initialize env force_init s)) = reported s @ vs
            \<and> sorted_wrt (<) vs \<and> (\<forall>v \<in> set vs. 0 \<le> v \<and> v \<le> 100)"
  proof (cases "reaches_lock force_init s \<and> \<not> scan_lock s")
    case True
    then have r: "reaches_lock force_init s" and l: "\<not> scan_lock s" by simp_all
    from initialize_after_scan(3) [OF r l, of env]
    have e: "reported (snd (initialize env force_init s)) =
             reported (snd (scan_and_initialize env False (scan_start env s)))" by simp
    from scan_and_initialize_reported [of env False "scan_start env s"]
    show ?thesis by (simp add: e scan_start_frame)
  next
    case False
    from initialize_no_scan(3) [OF False, of env] show ?thesis by simp
  qed
qed

text \<open>
  Witness for C9: the scan of the fresh library, which holds two images, reports 0 and
  then 50.
\<close>

theorem progress_reporting_witness:
  "reported (snd (initialize env_plain False new_lib)) = [0, 50]"
proof -
  from progress_reporting [of env_plain False new_lib False]
  obtain vs where vs: "reported (snd (initialize env_plain False new_lib)) = reported new_lib @ vs"
    "sorted_wrt (<) vs" "\<forall>v \<in> set vs. 0 \<le> v \<and> v \<le> 100"
    by blast
  have r: "reported (snd (initialize env_plain False new_lib)) = [0, 50]"
    by (simp add: new_lib_def env_plain_def image_lib_defs)
  have "reported new_lib = []" by (simp add: new_lib_def)
  with vs(1) r have "vs = [0, 50]" by simp
  with vs(2,3) r show ?thesis by simp
qed

text \<open>
  Claim C10. On a ready library, \<open>remove_embeddings\<close> never raises; it removes the profile
  entries of the addressed paths (the non-empty paths, stripped of leading separators),
  the rows and the vectors whose uuid the profile maps an addressed path to, and persists
  the profile; every other profile entry, row, vector and field of the state is
  unchanged. A path that is empty or absent from the profile contributes nothing.
\<close>

theorem remove_embeddings_frame:
  assumes "lib_is_ready s"
  shows "remove_embeddings relative_paths s =
     (None,
      if relative_paths = [] then s
      else s\<lparr>vectors := filter (\<lambda>kv. fst kv \<notin> removed_uuids relative_paths s) (vectors s),
             rows := filter (\<lambda>r. rec_uuid r \<notin> removed_uuids relative_paths s) (rows s),
             embedded_files :=
               filter (\<lambda>e. fst e \<notin> stripped_paths relative_paths) (embedded_files s),
             scan_profile_file :=
               filter (\<lambda>e. fst e \<notin> stripped_paths relative_paths) (embedded_files s)\<rparr>)"
proof (cases "relative_paths = []")
  case True
  with assms show ?thesis by (simp add: remove_embeddings_def)
next
  case False
  have "remove_embeddings relative_paths s =
          (None, save_scan_profile (remove_embeddings_loop relative_paths s))"
    using assms False by (simp add: remove_embeddings_def)
  also have "save_scan_profile (remove_embeddings_loop relative_paths s) =
      s\<lparr>vectors := vectors (remove_embeddings_loop relative_paths s),
        rows := rows (remove_embeddings_loop relative_paths s),
        embedded_files := embedded_files (remove_embeddings_loop relative_paths s),
        scan_profile_file := embedded_files (remove_embeddings_loop relative_paths s)\<rparr>"
    by (subst loop_record) (simp add: save_scan_profile_def)
  finally show ?thesis
    using False by (simp add: loop_vectors loop_rows loop_profile)
qed

text \<open>
  Witness for C10: on the scanned library, the paths \<open>/a.png\<close> (in the profile once
  stripped), the empty path and \<open>zzz\<close> (absent) remove exactly the entry, row and vector of
  \<open>a.png\<close>.
\<close>

theorem remove_embeddings_frame_witness:
  "lib_is_ready scanned_lib
   \<and> remove_embeddings [''/a.png'', [], ''zzz''] scanned_lib =
       (None, scanned_lib
          \<lparr>vectors := [(1, [1, 2])],
           rows := [\<lparr>rec_id = 2, rec_timestamp = 9, rec_uuid = 1, rec_path = [],
                     rec_filename = ''b.png''\<rparr>],
           embedded_files := [(''b.png'', 1)],
           scan_profile_file := [(''b.png'', 1)]\<rparr>)"
proof -
  have ready: "lib_is_ready scanned_lib"
    by (simp add: scanned_lib_def image_lib_defs)
  have sp: "stripped_paths [''/a.png'', [], ''zzz''] = {''a.png'', ''zzz''}"
    by (simp add: stripped_paths_Cons stripped_paths_Nil lstrip_sep_def sep_def)
  have ru: "removed_uuids [''/a.png'', [], ''zzz''] scanned_lib = {0}"
    by (auto simp: removed_uuids_def sp scanned_lib_def)
  show ?thesis
    using remove_embeddings_frame [OF ready, of "[''/a.png'', [], ''zzz'']"]
    by (simp add: ready sp ru) (simp add: scanned_lib_def)
qed

end
